theory Spec2Isabelle
  imports Complex_Main "HOL-Library.AList"
begin

section \<open>Python values\<close>

text \<open>
  A Python \<open>str\<close> is a sequence of Unicode code points, so it is modelled as a list of
  code points. The labels the service builds contain CJK characters, which are written
  below by their code points; ASCII literals are injected with \<open>ascii\<close>.
\<close>

type_synonym pystr = "nat list"

definition ascii :: "string \<Rightarrow> pystr" where
  "ascii s = map of_char s"

text \<open>\<open>sep.join(parts)\<close>.\<close>

fun join :: "pystr \<Rightarrow> pystr list \<Rightarrow> pystr" where
  "join sep [] = []"
| "join sep [x] = x"
| "join sep (x # y # ys) = x @ sep @ join sep (y # ys)"

text \<open>\<open>s.startswith(p)\<close> and the substring test \<open>t in s\<close>.\<close>

fun startswith :: "pystr \<Rightarrow> pystr \<Rightarrow> bool" where
  "startswith s [] = True"
| "startswith [] (p # ps) = False"
| "startswith (c # cs) (p # ps) = (c = p \<and> startswith cs ps)"

fun py_in :: "pystr \<Rightarrow> pystr \<Rightarrow> bool" where
  "py_in t [] = (t = [])"
| "py_in t (c # cs) = (startswith (c # cs) t \<or> py_in t cs)"

text \<open>\<open>str(n)\<close> for an \<open>int\<close>: decimal digits, a minus sign for a negative number.\<close>

function str_nat :: "nat \<Rightarrow> pystr" where
  "str_nat n = (if n < 10 then [48 + n] else str_nat (n div 10) @ [48 + n mod 10])"
  by pat_completeness auto
termination
  by (relation "measure (\<lambda>n. n)") auto

definition str_int :: "int \<Rightarrow> pystr" where
  "str_int i = (if i < 0 then 45 # str_nat (nat (- i)) else str_nat (nat i))"

text \<open>
  The values execute_script hands back for the fields of a dropdown entry: JSON null
  (or an absent key, which \<open>dict.get\<close> turns into \<open>None\<close>), booleans, integers and
  strings, with Python's truth value and Python's \<open>a or b\<close>.
\<close>

datatype pyval = PNone | PBool bool | PInt int | PStr pystr

fun truthy :: "pyval \<Rightarrow> bool" where
  "truthy PNone = False"
| "truthy (PBool b) = b"
| "truthy (PInt n) = (n \<noteq> 0)"
| "truthy (PStr s) = (s \<noteq> [])"

definition py_or :: "pyval \<Rightarrow> pyval \<Rightarrow> pyval" where
  "py_or a b = (if truthy a then a else b)"

text \<open>The exceptions that occur in the modelled code; an HTTPException carries its status.\<close>

datatype exn =
    HTTPException nat
  | SessionNotCreatedException
  | WebDriverException
  | TypeError
  | IndexError
  | KeyError

section \<open>Course cells: parse_course_content\<close>

text \<open>
  What BeautifulSoup shows of a table cell: the stripped text of the cell, and, when
  the cell holds a \<open>div\<close> of class \<open>courseInfo\<close>, the \<open>span\<close> elements below the first
  such \<open>div\<close> in document order, each with its class list and its stripped text
  (\<open>get_text(strip=True)\<close>).
\<close>

record span =
  span_class :: "string list"
  span_text :: pystr

record cell =
  cell_text :: pystr
  courseInfo :: "span list option"

text \<open>\<open>course_info.find("span")\<close> and \<open>course_info.find("span", class_=c)\<close>.\<close>

definition find_span :: "span list \<Rightarrow> span option" where
  "find_span spans = (case spans of [] \<Rightarrow> None | sp # _ \<Rightarrow> Some sp)"

definition find_span_class :: "string \<Rightarrow> span list \<Rightarrow> span option" where
  "find_span_class c spans = List.find (\<lambda>sp. c \<in> set (span_class sp)) spans"

definition get_text :: "span option \<Rightarrow> pystr" where
  "get_text found = (case found of None \<Rightarrow> [] | Some sp \<Rightarrow> span_text sp)"

text \<open>
  Lines 325 to 348: the four fields, each the empty string unless its \<open>span\<close> is found.
\<close>

definition course_name :: "span list \<Rightarrow> pystr" where
  "course_name course_info = get_text (find_span course_info)"

definition class_info :: "span list \<Rightarrow> pystr" where
  "class_info course_info = get_text (find_span_class ''teachCls'' course_info)"

definition teacher :: "span list \<Rightarrow> pystr" where
  "teacher course_info = get_text (find_span_class ''teacher'' course_info)"

definition location :: "span list \<Rightarrow> pystr" where
  "location course_info = get_text (find_span_class ''place'' course_info)"

text \<open>Lines 351 to 359: \<open>content_parts\<close>, built by four guarded appends.\<close>

definition append_if :: "pystr \<Rightarrow> pystr list \<Rightarrow> pystr list" where
  "append_if s parts = (if s \<noteq> [] then parts @ [s] else parts)"

definition content_parts :: "span list \<Rightarrow> pystr list" where
  "content_parts course_info =
     append_if (location course_info)
       (append_if (teacher course_info)
         (append_if (class_info course_info)
           (append_if (course_name course_info) [])))"

definition parse_course_content :: "cell \<Rightarrow> pystr option" where
  "parse_course_content c =
     (case courseInfo c of
        None \<Rightarrow> None
      | Some course_info \<Rightarrow>
          (let content = join (ascii '' '') (content_parts course_info)
           in if content \<noteq> [] then Some content else None))"

section \<open>Dropdown datasets\<close>

text \<open>
  An entry of the semester or week dataset that \<open>mini.get(...).getData()\<close> returns: a
  dictionary from keys to values, together with the string \<open>str(opt)\<close> that Python
  prints for it (the default display name of an entry without a name field).
\<close>

record js_option =
  entries :: "(pystr \<times> pyval) list"
  str_of :: pystr

text \<open>\<open>opt.get(key)\<close>: \<open>None\<close> for an absent key.\<close>

definition opt_get :: "js_option \<Rightarrow> string \<Rightarrow> pyval" where
  "opt_get opt k = (case map_of (entries opt) (ascii k) of None \<Rightarrow> PNone | Some v \<Rightarrow> v)"

text \<open>
  The local helper \<open>_val_name\<close> (lines 432, 522 and 652, three identical copies): the
  identifier and the display name of an entry, each the first field with a true value.
\<close>

definition val_name :: "js_option \<Rightarrow> pyval \<times> pyval" where
  "val_name opt =
     (py_or (py_or (py_or (py_or (opt_get opt ''weekId'') (opt_get opt ''id''))
                          (opt_get opt ''value''))
                   (opt_get opt ''semId''))
            (PStr []),
      py_or (py_or (py_or (py_or (opt_get opt ''weekName'') (opt_get opt ''name''))
                          (opt_get opt ''text''))
                   (opt_get opt ''semName''))
            (PStr (str_of opt)))"

section \<open>Default semester: get_timetable, lines 438 to 465\<close>

text \<open>
  The two suffixes of a semester label, by code points: the autumn term
  (U+5B66 U+5E74 U+79CB U+5B63 U+5B66 U+671F) and the spring term
  (U+5B66 U+5E74 U+6625 U+5B63 U+5B66 U+671F).
\<close>

definition autumn_term :: pystr where
  "autumn_term = [23398, 24180, 31179, 23395, 23398, 26399]"

definition spring_term :: pystr where
  "spring_term = [23398, 24180, 26149, 23395, 23398, 26399]"

text \<open>Lines 446 to 451, for \<open>now.year\<close> and \<open>now.month\<close>.\<close>

definition target_names :: "int \<Rightarrow> nat \<Rightarrow> pystr list" where
  "target_names year month =
     (if month \<ge> 9 then [str_int year @ ascii ''-'' @ str_int (year + 1) @ autumn_term]
      else if month \<ge> 3 then [str_int (year - 1) @ ascii ''-'' @ str_int year @ spring_term]
      else [str_int (year - 1) @ ascii ''-'' @ str_int year @ autumn_term])"

text \<open>
  \<open>any(t in sem_name for t in target_names)\<close>: the substring test raises TypeError
  when the name is not a string.
\<close>

fun any_in :: "pystr list \<Rightarrow> pyval \<Rightarrow> exn + bool" where
  "any_in [] v = Inr False"
| "any_in (t # ts) (PStr s) = (if py_in t s then Inr True else any_in ts (PStr s))"
| "any_in (t # ts) v = Inl TypeError"

text \<open>Lines 453 to 458: the loop that looks for the current semester's name.\<close>

fun find_current :: "pystr list \<Rightarrow> js_option list \<Rightarrow> exn + pyval option" where
  "find_current targets [] = Inr None"
| "find_current targets (sem # sem_options) =
     (case any_in targets (snd (val_name sem)) of
        Inl e \<Rightarrow> Inl e
      | Inr True \<Rightarrow> Inr (Some (snd (val_name sem)))
      | Inr False \<Rightarrow> find_current targets sem_options)"

text \<open>Lines 439 to 442: the metadata, one pair of identifier and name per entry.\<close>

definition all_semesters_meta :: "js_option list \<Rightarrow> (pyval \<times> pyval) list" where
  "all_semesters_meta sem_options = map val_name sem_options"

text \<open>Lines 445 to 460: the default semester's name, with the fallback to the first entry.\<close>

definition default_semester :: "int \<Rightarrow> nat \<Rightarrow> js_option list \<Rightarrow> exn + pyval option" where
  "default_semester year month sem_options =
     (case find_current (target_names year month) sem_options of
        Inl e \<Rightarrow> Inl e
      | Inr (Some current_sem_name) \<Rightarrow> Inr (Some current_sem_name)
      | Inr None \<Rightarrow>
          (case all_semesters_meta sem_options of
             [] \<Rightarrow> Inr None
           | meta # _ \<Rightarrow> Inr (Some (snd meta))))"

text \<open>Lines 462 to 465: the default week is the name of the first week entry.\<close>

definition default_week :: "js_option list \<Rightarrow> pyval option" where
  "default_week week_options =
     (case week_options of [] \<Rightarrow> None | w # _ \<Rightarrow> Some (snd (val_name w)))"

text \<open>
  The reading of "the display name contains the label" used to state the result: the
  name is a string and the label occurs in it.
\<close>

definition name_contains :: "pystr \<Rightarrow> js_option \<Rightarrow> bool" where
  "name_contains label sem =
     (case snd (val_name sem) of PStr s \<Rightarrow> py_in label s | _ \<Rightarrow> False)"

definition is_str :: "pyval \<Rightarrow> bool" where
  "is_str v = (case v of PStr s \<Rightarrow> True | _ \<Rightarrow> False)"

section \<open>Timetable extraction: get_semester_weeks\<close>

text \<open>
  The rendered grid as BeautifulSoup shows it: \<open>table.find_all("tr")\<close> is a list of
  rows, \<open>row.find_all("td")\<close> a list of cells. A course record is the dictionary with
  the keys \<open>period\<close> and \<open>content\<close>; \<open>week_courses\<close> is the dictionary from day label to
  the list of its records, in insertion order.
\<close>

type_synonym row = "cell list"

record course =
  period :: pystr
  content :: pystr

type_synonym week_courses = "(pystr \<times> course list) list"

text \<open>Line 576: \<open>{day: [] for day in days}\<close>; a repeated label keeps its first position.\<close>

definition empty_courses :: "pystr list \<Rightarrow> week_courses" where
  "empty_courses days = foldl (\<lambda>wc day. AList.update day [] wc) [] days"

text \<open>Line 581: the period label, \<open>cells[0].get_text(strip=True).replace("\n", "")\<close>.\<close>

definition period_of :: "cell \<Rightarrow> pystr" where
  "period_of c = filter (\<lambda>ch. ch \<noteq> 10) (cell_text c)"

text \<open>
  Lines 582 to 585: the loop over \<open>enumerate(cells[1:])\<close>, at index \<open>i\<close>. The lookup
  \<open>days[i]\<close> raises IndexError out of range, and indexing \<open>week_courses\<close> with a key it
  does not hold raises KeyError.
\<close>

fun add_cells ::
  "pystr list \<Rightarrow> pystr \<Rightarrow> nat \<Rightarrow> cell list \<Rightarrow> week_courses \<Rightarrow> exn + week_courses" where
  "add_cells days per i [] wc = Inr wc"
| "add_cells days per i (c # cs) wc =
     (case parse_course_content c of
        None \<Rightarrow> add_cells days per (Suc i) cs wc
      | Some text \<Rightarrow>
          if text = [] then add_cells days per (Suc i) cs wc
          else if length days \<le> i then Inl IndexError
          else
            (case map_of wc (days ! i) of
               None \<Rightarrow> Inl KeyError
             | Some recs \<Rightarrow>
                 add_cells days per (Suc i) cs
                   (AList.update (days ! i) (recs @ [\<lparr>period = per, content = text\<rparr>]) wc)))"

text \<open>Lines 577 to 585: the loop over the rows after the header; a row without cells is skipped.\<close>

fun add_rows :: "pystr list \<Rightarrow> row list \<Rightarrow> week_courses \<Rightarrow> exn + week_courses" where
  "add_rows days [] wc = Inr wc"
| "add_rows days ([] # rows) wc = add_rows days rows wc"
| "add_rows days ((c0 # cs) # rows) wc =
     (case add_cells days (period_of c0) 0 cs wc of
        Inl e \<Rightarrow> Inl e
      | Inr wc' \<Rightarrow> add_rows days rows wc')"

text \<open>
  Lines 574 to 585, for the header row \<open>table.find("tr")\<close> and the rows
  \<open>table.find_all("tr")[1:]\<close> after it.
\<close>

definition parse_grid :: "row \<Rightarrow> row list \<Rightarrow> exn + week_courses" where
  "parse_grid header rows =
     (let days = drop 1 (map cell_text header)
      in add_rows days rows (empty_courses days))"

text \<open>
  What the browser shows after the selectors of one week are set: whether the script
  ran, the text of the alert that close_alert_if_present dismissed (\<open>None\<close> when no alert
  was present), whether a course cell appeared within the wait, and the rows of
  \<open>table#table\<close> in the page source (\<open>None\<close> when there is no such table).
\<close>

record week_page =
  script_ok :: bool
  alert_text :: "pystr option"
  rendered :: bool
  table_rows :: "row list option"

record week_result =
  week_id :: pyval
  week_name :: pyval
  courses :: week_courses

text \<open>
  Lines 544 to 591, the body of the loop over the weeks: \<open>Inr None\<close> is a
  \<open>continue\<close>, \<open>Inr (Some w)\<close> the entry appended to \<open>semester_weeks\<close>.
\<close>

definition week_step :: "js_option \<Rightarrow> week_page \<Rightarrow> exn + week_result option" where
  "week_step wopt page =
     (if \<not> script_ok page then Inr None
      else if (case alert_text page of None \<Rightarrow> False | Some t \<Rightarrow> t \<noteq> []) then Inr None
      else if \<not> rendered page then Inr None
      else
        (case table_rows page of
           None \<Rightarrow> Inr None
         | Some [] \<Rightarrow> Inr None
         | Some (header # rows) \<Rightarrow>
             (case parse_grid header rows of
                Inl e \<Rightarrow> Inl e
              | Inr wc \<Rightarrow>
                  Inr (Some \<lparr>week_id = fst (val_name wopt), week_name = snd (val_name wopt),
                             courses = wc\<rparr>))))"

text \<open>
  Line 541: the loop over \<open>enumerate(week_options[:total_weeks])\<close>; \<open>browser widx\<close> is
  what the browser shows in iteration \<open>widx\<close>.
\<close>

fun weeks_loop ::
  "(nat \<Rightarrow> week_page) \<Rightarrow> (nat \<times> js_option) list \<Rightarrow> week_result list
     \<Rightarrow> exn + week_result list" where
  "weeks_loop browser [] semester_weeks = Inr semester_weeks"
| "weeks_loop browser ((widx, wopt) # rest) semester_weeks =
     (case week_step wopt (browser widx) of
        Inl e \<Rightarrow> Inl e
      | Inr None \<Rightarrow> weeks_loop browser rest semester_weeks
      | Inr (Some w) \<Rightarrow> weeks_loop browser rest (semester_weeks @ [w]))"

text \<open>Lines 528 to 533: the first entry whose identifier equals the requested one.\<close>

fun matched_sem :: "pystr \<Rightarrow> js_option list \<Rightarrow> (pyval \<times> pyval) option" where
  "matched_sem sem_id [] = None"
| "matched_sem sem_id (sem # sem_options) =
     (if fst (val_name sem) = PStr sem_id then Some (val_name sem)
      else matched_sem sem_id sem_options)"

text \<open>Line 539: \<open>max(1, req.max_weeks)\<close>.\<close>

definition total_weeks :: "int \<Rightarrow> nat" where
  "total_weeks max_weeks = nat (max 1 max_weeks)"

record semester_weeks_response =
  resp_sem_id :: pyval
  resp_sem_name :: pyval
  weeks :: "week_result list"

text \<open>
  Lines 528 to 598 (and their copy, lines 659 to 729): validation of the semester
  identifier, the loop over the weeks, the response.
\<close>

definition extract_semester ::
  "(nat \<Rightarrow> week_page) \<Rightarrow> js_option list \<Rightarrow> js_option list \<Rightarrow> pystr \<Rightarrow> int
     \<Rightarrow> exn + semester_weeks_response" where
  "extract_semester browser sem_options week_options sem_id max_weeks =
     (case matched_sem sem_id sem_options of
        None \<Rightarrow> Inl (HTTPException 400)
      | Some (sem_value, sem_name) \<Rightarrow>
          (case weeks_loop browser
                  (enumerate 0 (take (total_weeks max_weeks) week_options)) [] of
             Inl e \<Rightarrow> Inl e
           | Inr semester_weeks \<Rightarrow>
               Inr \<lparr>resp_sem_id = sem_value, resp_sem_name = sem_name,
                    weeks = semester_weeks\<rparr>))"

text \<open>
  For stating the result of the grid parsing: the records of the cells that stand in
  a column whose header cell is labelled \<open>day\<close>, row by row and, within a row, from left
  to right. Column 0 holds the period label.
\<close>

definition row_records :: "row \<Rightarrow> pystr \<Rightarrow> row \<Rightarrow> course list" where
  "row_records header day cells =
     (case cells of
        [] \<Rightarrow> []
      | c0 # cs \<Rightarrow>
          concat (map (\<lambda>(col, c).
                    if cell_text (header ! col) = day
                    then (case parse_course_content c of
                            None \<Rightarrow> []
                          | Some text \<Rightarrow> [\<lparr>period = period_of c0, content = text\<rparr>])
                    else [])
                  (enumerate 1 cs)))"

definition column_records :: "row \<Rightarrow> row list \<Rightarrow> pystr \<Rightarrow> course list" where
  "column_records header rows day = concat (map (row_records header day) rows)"

text \<open>For stating the skip rule: the three skip conditions of a week.\<close>

definition skipped :: "week_page \<Rightarrow> bool" where
  "skipped page =
     (\<not> script_ok page
      \<or> (case alert_text page of None \<Rightarrow> False | Some t \<Rightarrow> t \<noteq> [])
      \<or> \<not> rendered page)"

text \<open>
  An auxiliary notion for the proofs about the grid: the records that the cell \<open>c\<close> at
  index \<open>i\<close> of \<open>cells[1:]\<close> adds under the label \<open>day\<close>.
\<close>

definition cell_records :: "pystr list \<Rightarrow> pystr \<Rightarrow> pystr \<Rightarrow> nat \<times> cell \<Rightarrow> course list" where
  "cell_records days per day ic =
     (if days ! fst ic = day
      then (case parse_course_content (snd ic) of
              None \<Rightarrow> []
            | Some text \<Rightarrow> [\<lparr>period = per, content = text\<rparr>])
      else [])"

text \<open>
  For stating the result of the loop over the weeks: the entry a week contributes,
  none when it is skipped.
\<close>

definition week_entries :: "(nat \<Rightarrow> week_page) \<Rightarrow> nat \<times> js_option \<Rightarrow> week_result list" where
  "week_entries browser iw =
     (case week_step (snd iw) (browser (fst iw)) of
        Inr (Some w) \<Rightarrow> [w]
      | _ \<Rightarrow> [])"

section \<open>The browser pool\<close>

text \<open>
  A driver is a handle to one browser process. Every successful call of
  \<open>webdriver.Chrome\<close> yields a new driver object, and the handle is the number of the
  call that made it, so two drivers are never confused. What a call of
  \<open>webdriver.Chrome\<close> does is the environment's choice, given by a function of the
  call's number: \<open>Started a\<close> when the call returns a driver object, which the
  interpreter has placed at the address \<open>a\<close>, or one of the two kinds of exception.
\<close>

type_synonym driver = nat

datatype launch = Started nat | NotCreated | Crashed

definition POOL_SIZE :: nat where
  "POOL_SIZE = 5"

definition MAX_USAGE_PER_DRIVER :: nat where
  "MAX_USAGE_PER_DRIVER = 15"

text \<open>
  The module's global state: the queue \<open>driver_pool\<close> (the head is taken next), the
  dictionaries \<open>drivers\<close>, \<open>driver_expiry\<close> and \<open>driver_usage_count\<close> in insertion order,
  the number of calls of \<open>webdriver.Chrome\<close> made so far, and the drivers on which
  \<open>quit()\<close> has been called. Times are seconds, memory readings megabytes.
\<close>

record globals =
  driver_pool :: "driver list"
  drivers :: "(pystr \<times> driver) list"
  driver_expiry :: "(pystr \<times> real) list"
  driver_usage_count :: "(nat \<times> nat) list"
  launched :: nat
  quit_calls :: "driver list"

text \<open>
  \<open>id(driver)\<close>, the key of the usage table, is the address of the driver object, which
  stays the same while the object lives. Python keeps the addresses of objects that
  live at the same time apart, and no more: the address of a driver that has been
  collected may be given to a driver created later, so two calls of
  \<open>webdriver.Chrome\<close> may be \<open>Started\<close> with the same address. (A handle belongs to a
  driver only when its call was \<open>Started\<close>; the other two cases are never asked for.)
\<close>

definition py_id :: "(nat \<Rightarrow> launch) \<Rightarrow> driver \<Rightarrow> nat" where
  "py_id chrome d = (case chrome d of Started a \<Rightarrow> a | NotCreated \<Rightarrow> d | Crashed \<Rightarrow> d)"

text \<open>\<open>driver_usage_count.get(driver_id, 0)\<close>.\<close>

definition usage_count :: "globals \<Rightarrow> nat \<Rightarrow> nat" where
  "usage_count g driver_id =
     (case map_of (driver_usage_count g) driver_id of None \<Rightarrow> 0 | Some n \<Rightarrow> n)"

text \<open>
  \<open>driver.quit()\<close>; every caller ignores an exception from it, so only the call is
  recorded.
\<close>

definition quit :: "driver \<Rightarrow> globals \<Rightarrow> globals" where
  "quit d g = g\<lparr>quit_calls := quit_calls g @ [d]\<rparr>"

definition webdriver_Chrome :: "(nat \<Rightarrow> launch) \<Rightarrow> globals \<Rightarrow> (exn + driver) \<times> globals" where
  "webdriver_Chrome chrome g =
     (case chrome (launched g) of
        Started a \<Rightarrow> (Inr (launched g), g\<lparr>launched := Suc (launched g)\<rparr>)
      | NotCreated \<Rightarrow> (Inl SessionNotCreatedException, g\<lparr>launched := Suc (launched g)\<rparr>)
      | Crashed \<Rightarrow> (Inl WebDriverException, g\<lparr>launched := Suc (launched g)\<rparr>))"

text \<open>
  Lines 139 to 152 of create_driver: the full profile, and once more with the minimal
  profile when the first call raises SessionNotCreatedException.
\<close>

definition create_driver :: "(nat \<Rightarrow> launch) \<Rightarrow> globals \<Rightarrow> (exn + driver) \<times> globals" where
  "create_driver chrome g =
     (case webdriver_Chrome chrome g of
        (Inl SessionNotCreatedException, g1) \<Rightarrow> webdriver_Chrome chrome g1
      | r \<Rightarrow> r)"

text \<open>
  get_driver, lines 154 to 175. Lines 156 to 163 take the head of the pool, or create
  a driver when the pool is empty; this creation is wrapped into the HTTP error 503.
\<close>

definition take_driver :: "(nat \<Rightarrow> launch) \<Rightarrow> globals \<Rightarrow> (exn + driver) \<times> globals" where
  "take_driver chrome g =
     (case driver_pool g of
        driver # rest \<Rightarrow> (Inr driver, g\<lparr>driver_pool := rest\<rparr>)
      | [] \<Rightarrow>
          (case create_driver chrome g of
             (Inl e, g1) \<Rightarrow> (Inl (HTTPException 503), g1)
           | (Inr driver, g1) \<Rightarrow> (Inr driver, g1)))"

text \<open>
  Lines 165 to 175 replace a driver whose usage count has reached the ceiling. The
  creation of the replacement on line 172 is not wrapped, and line 173 writes the
  counter under \<open>driver_id\<close>, which line 166 has set to the key of the discarded driver.
\<close>

definition get_driver :: "(nat \<Rightarrow> launch) \<Rightarrow> globals \<Rightarrow> (exn + driver) \<times> globals" where
  "get_driver chrome g =
     (case take_driver chrome g of
        (Inl e, g1) \<Rightarrow> (Inl e, g1)
      | (Inr driver, g1) \<Rightarrow>
          if usage_count g1 (py_id chrome driver) \<ge> MAX_USAGE_PER_DRIVER then
            (case create_driver chrome (quit driver g1) of
               (Inl e, g2) \<Rightarrow> (Inl e, g2)
             | (Inr driver', g2) \<Rightarrow>
                 (Inr driver',
                  g2\<lparr>driver_usage_count :=
                       AList.update (py_id chrome driver) 0 (driver_usage_count g2)\<rparr>))
          else (Inr driver, g1))"

text \<open>
  \<open>driver_pool.put(driver)\<close> on a queue of maxsize POOL_SIZE: it blocks while the queue
  is full, which is the value \<open>None\<close> (the call does not return).
\<close>

definition put :: "driver \<Rightarrow> globals \<Rightarrow> globals option" where
  "put d g =
     (if length (driver_pool g) < POOL_SIZE
      then Some (g\<lparr>driver_pool := driver_pool g @ [d]\<rparr>)
      else None)"

text \<open>
  release_driver, lines 177 to 199; \<open>cleared\<close> tells whether the three calls that clear
  the browser's cookies and storage succeed.
\<close>

definition release_driver ::
  "(nat \<Rightarrow> launch) \<Rightarrow> bool \<Rightarrow> driver \<Rightarrow> globals \<Rightarrow> globals option" where
  "release_driver chrome cleared driver g =
     (if cleared then
        put driver
          (g\<lparr>driver_usage_count :=
               AList.update (py_id chrome driver) (usage_count g (py_id chrome driver) + 1)
                 (driver_usage_count g)\<rparr>)
      else
        (case create_driver chrome (quit driver g) of
           (Inl e, g1) \<Rightarrow> Some g1
         | (Inr driver', g1) \<Rightarrow> put driver' g1))"

text \<open>Lines 260 to 265: the pool is filled at start-up until a creation fails.\<close>

fun init_pool :: "(nat \<Rightarrow> launch) \<Rightarrow> nat \<Rightarrow> globals \<Rightarrow> globals option" where
  "init_pool chrome 0 g = Some g"
| "init_pool chrome (Suc n) g =
     (case create_driver chrome g of
        (Inl e, g1) \<Rightarrow> Some g1
      | (Inr driver, g1) \<Rightarrow>
          (case put driver g1 of
             None \<Rightarrow> None
           | Some g2 \<Rightarrow> init_pool chrome n g2))"

definition initial :: globals where
  "initial = \<lparr>driver_pool = [], drivers = [], driver_expiry = [], driver_usage_count = [],
              launched = 0, quit_calls = []\<rparr>"

definition startup :: "(nat \<Rightarrow> launch) \<Rightarrow> globals option" where
  "startup chrome =
     init_pool chrome (POOL_SIZE - min POOL_SIZE (length (driver_pool initial))) initial"

section \<open>The session registry and the background threads\<close>

text \<open>
  The sweep shared by cleanup_drivers (lines 205 to 220, threshold 300) and
  monitor_memory (lines 233 to 247, threshold 180): the first loop quits the driver
  of every entry of \<open>driver_expiry\<close> that is older than the threshold and collects its
  session id, the second loop pops the collected ids from both dictionaries.
\<close>

fun expire_loop ::
  "real \<Rightarrow> real \<Rightarrow> (pystr \<times> real) list \<Rightarrow> globals \<Rightarrow> pystr list \<Rightarrow> globals \<times> pystr list" where
  "expire_loop threshold current_time [] g expired_sessions = (g, expired_sessions)"
| "expire_loop threshold current_time ((session_id, expiry_time) # items) g expired_sessions =
     (if current_time - expiry_time > threshold then
        expire_loop threshold current_time items
          (case map_of (drivers g) session_id of
             None \<Rightarrow> g
           | Some driver \<Rightarrow> quit driver g)
          (expired_sessions @ [session_id])
      else expire_loop threshold current_time items g expired_sessions)"

fun pop_sessions :: "pystr list \<Rightarrow> globals \<Rightarrow> globals" where
  "pop_sessions [] g = g"
| "pop_sessions (session_id # expired_sessions) g =
     pop_sessions expired_sessions
       (g\<lparr>drivers := AList.delete session_id (drivers g),
          driver_expiry := AList.delete session_id (driver_expiry g)\<rparr>)"

definition sweep :: "real \<Rightarrow> real \<Rightarrow> globals \<Rightarrow> globals" where
  "sweep threshold current_time g =
     (case expire_loop threshold current_time (driver_expiry g) g [] of
        (g1, expired_sessions) \<Rightarrow> pop_sessions expired_sessions g1)"

text \<open>One pass of the endless loop of cleanup_drivers, at the time \<open>current_time\<close>.\<close>

definition cleanup_drivers_pass :: "real \<Rightarrow> globals \<Rightarrow> globals" where
  "cleanup_drivers_pass current_time g = sweep 300 current_time g"

text \<open>
  Lines 250 to 256: up to \<open>n\<close> idle drivers are taken from the pool and quit; an
  exception of \<open>quit()\<close> ends the loop (\<open>quit_ok\<close> tells whether the call succeeds).
\<close>

fun shrink :: "(driver \<Rightarrow> bool) \<Rightarrow> nat \<Rightarrow> globals \<Rightarrow> globals" where
  "shrink quit_ok 0 g = g"
| "shrink quit_ok (Suc n) g =
     (case driver_pool g of
        [] \<Rightarrow> g
      | driver # rest \<Rightarrow>
          if quit_ok driver then shrink quit_ok n (quit driver (g\<lparr>driver_pool := rest\<rparr>))
          else quit driver (g\<lparr>driver_pool := rest\<rparr>))"

text \<open>
  One pass of the endless loop of monitor_memory, with the two memory readings of
  lines 225 and 250.
\<close>

definition monitor_memory_pass ::
  "(driver \<Rightarrow> bool) \<Rightarrow> real \<Rightarrow> real \<Rightarrow> real \<Rightarrow> globals \<Rightarrow> globals" where
  "monitor_memory_pass quit_ok memory_usage memory_usage_again current_time g =
     (if memory_usage > 400 then
        (let g1 = sweep 180 current_time g
         in if memory_usage_again > 400 \<and> driver_pool g1 \<noteq> []
            then shrink quit_ok (min 2 (length (driver_pool g1))) g1
            else g1)
      else g)"

text \<open>
  auto_release_driver, lines 291 to 300, when its \<open>sleep(240)\<close> is over: the thread is
  started by get_captcha for the session id it has just registered.
\<close>

definition auto_release_driver :: "pystr \<Rightarrow> globals \<Rightarrow> globals" where
  "auto_release_driver sid g =
     (case map_of (drivers g) sid of
        None \<Rightarrow> g
      | Some driver \<Rightarrow>
          (quit driver g)\<lparr>drivers := AList.delete sid (drivers g),
                           driver_expiry := AList.delete sid (driver_expiry g)\<rparr>)"

section \<open>The request handlers\<close>

text \<open>
  get_captcha, lines 272 to 315. What the login page gives is the environment's
  choice: loading it or waiting for the image fails, or the \<open>src\<close> attribute of the
  image is read. \<open>session_id\<close> is the value of \<open>os.urandom(16).hex()\<close>, \<open>now\<close> the clock.
  The statements of lines 302 to 305, which follow the registration of lines 287 and
  288 inside the same \<open>try\<close>, start the timer thread and print two lines; \<open>announced\<close>
  tells whether they succeed. When one of them raises, the handler of lines 312 to
  315 releases the driver, as it does for every other exception, and the registration
  stays as it is.
\<close>

datatype captcha_page = PageFailed | CaptchaSrc "pystr option"

definition is_data_image :: "pystr option \<Rightarrow> bool" where
  "is_data_image captcha_src =
     (case captcha_src of
        None \<Rightarrow> False
      | Some src \<Rightarrow> src \<noteq> [] \<and> startswith src (ascii ''data:image''))"

definition get_captcha ::
  "(nat \<Rightarrow> launch) \<Rightarrow> real \<Rightarrow> captcha_page \<Rightarrow> bool \<Rightarrow> bool \<Rightarrow> pystr \<Rightarrow> real \<Rightarrow> globals
     \<Rightarrow> ((exn + pystr \<times> pystr) \<times> globals) option" where
  "get_captcha chrome memory page announced cleared session_id now g =
     (if memory > 500 then Some (Inl (HTTPException 503), g)
      else
        (case get_driver chrome g of
           (Inl e, g1) \<Rightarrow> Some (Inl e, g1)
         | (Inr driver, g1) \<Rightarrow>
             (case page of
                CaptchaSrc (Some captcha_src) \<Rightarrow>
                  if is_data_image (Some captcha_src) then
                    if announced then
                      Some (Inr (session_id, captcha_src),
                            g1\<lparr>drivers := AList.update session_id driver (drivers g1),
                               driver_expiry := AList.update session_id now (driver_expiry g1)\<rparr>)
                    else
                      (case release_driver chrome cleared driver
                              (g1\<lparr>drivers := AList.update session_id driver (drivers g1),
                                  driver_expiry :=
                                    AList.update session_id now (driver_expiry g1)\<rparr>) of
                         None \<Rightarrow> None
                       | Some g2 \<Rightarrow> Some (Inl (HTTPException 500), g2))
                  else
                    (case release_driver chrome cleared driver g1 of
                       None \<Rightarrow> None
                     | Some g2 \<Rightarrow> Some (Inl (HTTPException 500), g2))
              | _ \<Rightarrow>
                  (case release_driver chrome cleared driver g1 of
                     None \<Rightarrow> None
                   | Some g2 \<Rightarrow> Some (Inl (HTTPException 500), g2)))))"

text \<open>
  get_timetable, lines 365 to 489. The browser's part is the environment's choice:
  the captcha image is not found or a later step raises (\<open>FlowFailed\<close>), the wait for
  the login times out (\<open>LoginTimeout\<close>), or the two dropdown datasets are read. Line 468
  and the \<open>finally\<close> clause of lines 484 to 489 refresh the session's time stamp.
\<close>

datatype login_flow =
    FlowFailed
  | LoginTimeout
  | Dropdowns "js_option list" "js_option list"

datatype timetable_response =
    NeedManualCaptcha
  | CaptchaRejected
  | Metadata "pyval option" "pyval option" "(pyval \<times> pyval) list"

definition refresh :: "pystr \<Rightarrow> real \<Rightarrow> globals \<Rightarrow> globals" where
  "refresh sid now g = g\<lparr>driver_expiry := AList.update sid now (driver_expiry g)\<rparr>"

definition refresh_finally :: "pystr \<Rightarrow> real \<Rightarrow> globals \<Rightarrow> globals" where
  "refresh_finally sid now g = (if map_of (drivers g) sid \<noteq> None then refresh sid now g else g)"

definition get_timetable ::
  "real \<Rightarrow> pystr \<Rightarrow> pystr option \<Rightarrow> bool \<Rightarrow> login_flow \<Rightarrow> int \<Rightarrow> nat \<Rightarrow> real \<Rightarrow> globals
     \<Rightarrow> (exn + timetable_response) \<times> globals" where
  "get_timetable memory sid captcha image_found flow year month now g =
     (if memory > 500 then (Inl (HTTPException 503), g)
      else
        (case map_of (drivers g) sid of
           None \<Rightarrow> (Inl (HTTPException 400), g)
         | Some driver \<Rightarrow>
             if \<not> image_found then (Inl (HTTPException 500), refresh_finally sid now g)
             else if (case captcha of None \<Rightarrow> True | Some c \<Rightarrow> c = [])
               then (Inr NeedManualCaptcha, refresh_finally sid now g)
             else
               (case flow of
                  FlowFailed \<Rightarrow> (Inl (HTTPException 500), refresh_finally sid now g)
                | LoginTimeout \<Rightarrow> (Inr CaptchaRejected, refresh_finally sid now g)
                | Dropdowns sem_options week_options \<Rightarrow>
                    (case default_semester year month sem_options of
                       Inl e \<Rightarrow> (Inl (HTTPException 500), refresh_finally sid now g)
                     | Inr current_sem_name \<Rightarrow>
                         (Inr (Metadata current_sem_name (default_week week_options)
                                 (all_semesters_meta sem_options)),
                          refresh_finally sid now (refresh sid now g))))))"

text \<open>
  get_semester_weeks, lines 492 to 740. With a session that is still registered the
  extraction runs in the session's browser and line 594 refreshes the time stamp;
  an HTTPException passes through and any other exception becomes the error 500.
  Without such a session a driver of its own is created outside the \<open>try\<close>, logged in,
  used and quit. The browser's part is the environment's choice: a step raises
  (\<open>PageRaised\<close>), the wait for the login times out (\<open>LoginRejected\<close>, which only the path
  that logs in can meet; the session's path reads it as a raise), or the schedule page
  shows the two dropdown datasets.
\<close>

record SemesterWeeksRequest =
  req_username :: "pystr option"
  req_password :: "pystr option"
  req_captcha :: "pystr option"
  req_session_id :: "pystr option"
  req_sem_id :: pystr
  req_max_weeks :: int

datatype schedule_page =
    PageRaised
  | LoginRejected
  | SchedulePage "js_option list" "js_option list"

definition given :: "pystr option \<Rightarrow> bool" where
  "given s = (case s of None \<Rightarrow> False | Some t \<Rightarrow> t \<noteq> [])"

definition as_http :: "exn + 'a \<Rightarrow> exn + 'a" where
  "as_http r =
     (case r of
        Inl (HTTPException status) \<Rightarrow> Inl (HTTPException status)
      | Inl e \<Rightarrow> Inl (HTTPException 500)
      | Inr v \<Rightarrow> Inr v)"

definition get_semester_weeks ::
  "(nat \<Rightarrow> launch) \<Rightarrow> real \<Rightarrow> SemesterWeeksRequest \<Rightarrow> schedule_page \<Rightarrow> (nat \<Rightarrow> week_page)
     \<Rightarrow> real \<Rightarrow> globals \<Rightarrow> (exn + semester_weeks_response) \<times> globals" where
  "get_semester_weeks chrome memory req page browser now g =
     (if memory > 500 then (Inl (HTTPException 503), g)
      else
        (case (case req_session_id req of
                 None \<Rightarrow> None
               | Some sid \<Rightarrow> if sid \<noteq> [] \<and> map_of (drivers g) sid \<noteq> None then Some sid else None) of
           Some sid \<Rightarrow>
             (case page of
                SchedulePage sem_options week_options \<Rightarrow>
                  (case as_http (extract_semester browser sem_options week_options
                                   (req_sem_id req) (req_max_weeks req)) of
                     Inl e \<Rightarrow> (Inl e, g)
                   | Inr resp \<Rightarrow> (Inr resp, refresh sid now g))
              | _ \<Rightarrow> (Inl (HTTPException 500), g))
         | None \<Rightarrow>
             if \<not> (given (req_username req) \<and> given (req_password req) \<and> given (req_captcha req))
             then (Inl (HTTPException 400), g)
             else
               (case create_driver chrome g of
                  (Inl e, g1) \<Rightarrow> (Inl e, g1)
                | (Inr driver, g1) \<Rightarrow>
                    (case page of
                       PageRaised \<Rightarrow> (Inl (HTTPException 500), quit driver g1)
                     | LoginRejected \<Rightarrow> (Inl (HTTPException 401), quit driver g1)
                     | SchedulePage sem_options week_options \<Rightarrow>
                         (as_http (extract_semester browser sem_options week_options
                                     (req_sem_id req) (req_max_weeks req)),
                          quit driver g1)))))"

text \<open>
  The states the service can be in: the state after start-up, and every state that a
  request handler, a pass of one of the two background loops or the timer of a session
  leads to from such a state.
\<close>

inductive reachable :: "(nat \<Rightarrow> launch) \<Rightarrow> globals \<Rightarrow> bool" for chrome where
  start: "startup chrome = Some g \<Longrightarrow> reachable chrome g"
| captcha: "reachable chrome g \<Longrightarrow>
     get_captcha chrome memory page announced cleared session_id now g = Some (r, g') \<Longrightarrow>
     reachable chrome g'"
| timetable: "reachable chrome g \<Longrightarrow>
     get_timetable memory sid captcha image_found flow year month now g = (r, g') \<Longrightarrow>
     reachable chrome g'"
| semester_weeks: "reachable chrome g \<Longrightarrow>
     get_semester_weeks chrome memory req page browser now g = (r, g') \<Longrightarrow>
     reachable chrome g'"
| cleanup: "reachable chrome g \<Longrightarrow> reachable chrome (cleanup_drivers_pass current_time g)"
| monitor: "reachable chrome g \<Longrightarrow>
     reachable chrome (monitor_memory_pass quit_ok memory_usage memory_usage_again current_time g)"
| timer: "reachable chrome g \<Longrightarrow> reachable chrome (auto_release_driver sid g)"

text \<open>
  The invariant that the reachable states keep: the pool holds no driver twice and
  at most POOL_SIZE drivers, every driver in the pool or bound to a session comes
  from a call of \<open>webdriver.Chrome\<close> that has been made, and the two dictionaries of the
  registry hold every key once.
\<close>

definition pool_inv :: "globals \<Rightarrow> bool" where
  "pool_inv g =
     (distinct (driver_pool g)
      \<and> length (driver_pool g) \<le> POOL_SIZE
      \<and> (\<forall>d \<in> set (driver_pool g). d < launched g)
      \<and> (\<forall>d \<in> snd ` set (drivers g). d < launched g)
      \<and> distinct (map fst (drivers g))
      \<and> distinct (map fst (driver_expiry g)))"

text \<open>
  The states the service can be in when no captcha request fails after its
  registration: the rules of \<open>reachable\<close>, with \<open>announced\<close> true in every captcha
  request.
\<close>

inductive reachable_announced :: "(nat \<Rightarrow> launch) \<Rightarrow> globals \<Rightarrow> bool" for chrome where
  start: "startup chrome = Some g \<Longrightarrow> reachable_announced chrome g"
| captcha: "reachable_announced chrome g \<Longrightarrow>
     get_captcha chrome memory page True cleared session_id now g = Some (r, g') \<Longrightarrow>
     reachable_announced chrome g'"
| timetable: "reachable_announced chrome g \<Longrightarrow>
     get_timetable memory sid captcha image_found flow year month now g = (r, g') \<Longrightarrow>
     reachable_announced chrome g'"
| semester_weeks: "reachable_announced chrome g \<Longrightarrow>
     get_semester_weeks chrome memory req page browser now g = (r, g') \<Longrightarrow>
     reachable_announced chrome g'"
| cleanup: "reachable_announced chrome g \<Longrightarrow>
     reachable_announced chrome (cleanup_drivers_pass current_time g)"
| monitor: "reachable_announced chrome g \<Longrightarrow>
     reachable_announced chrome
       (monitor_memory_pass quit_ok memory_usage memory_usage_again current_time g)"
| timer: "reachable_announced chrome g \<Longrightarrow> reachable_announced chrome (auto_release_driver sid g)"

text \<open>No driver of the pool is bound to a session.\<close>

definition separated :: "globals \<Rightarrow> bool" where
  "separated g = (set (driver_pool g) \<inter> snd ` set (drivers g) = {})"

text \<open>
  For stating what a sweep does: a session id is stale when its time stamp is older
  than the threshold.
\<close>

definition stale :: "real \<Rightarrow> real \<Rightarrow> globals \<Rightarrow> pystr \<Rightarrow> bool" where
  "stale threshold current_time g sid =
     (case map_of (driver_expiry g) sid of
        None \<Rightarrow> False
      | Some expiry_time \<Rightarrow> current_time - expiry_time > threshold)"

section \<open>Example data\<close>

text \<open>
  A cell whose block holds a name \<open>Math\<close> and a place \<open>A101\<close> only; a cell whose block
  holds the name and all three labelled spans; and a cell whose block holds nothing
  but the span of the place.
\<close>

definition math_block :: "span list" where
  "math_block = [\<lparr>span_class = [], span_text = ascii ''Math''\<rparr>,
                 \<lparr>span_class = [''place''], span_text = ascii ''A101''\<rparr>]"

definition math_cell :: cell where
  "math_cell = \<lparr>cell_text = ascii ''MathA101'', courseInfo = Some math_block\<rparr>"

definition full_block :: "span list" where
  "full_block = [\<lparr>span_class = [], span_text = ascii ''Math''\<rparr>,
                 \<lparr>span_class = [''teachCls''], span_text = ascii ''1A''\<rparr>,
                 \<lparr>span_class = [''teacher''], span_text = ascii ''Smith''\<rparr>,
                 \<lparr>span_class = [''place''], span_text = ascii ''A101''\<rparr>]"

definition full_cell :: cell where
  "full_cell = \<lparr>cell_text = ascii ''Math1ASmithA101'', courseInfo = Some full_block\<rparr>"


text \<open>
  A semester dataset of three entries; the second one is named by the label of the
  autumn term 2024-2025.
\<close>

definition sem_entry :: "string \<Rightarrow> pystr \<Rightarrow> js_option" where
  "sem_entry i nm = \<lparr>entries = [(ascii ''id'', PStr (ascii i)), (ascii ''text'', PStr nm)],
                     str_of = ascii ''{}''\<rparr>"

definition three_semesters :: "js_option list" where
  "three_semesters =
     [sem_entry ''41'' (ascii ''2023-2024'' @ spring_term),
      sem_entry ''42'' (ascii ''2024-2025'' @ autumn_term),
      sem_entry ''43'' (ascii ''2024-2025'' @ spring_term)]"

text \<open>
  A grid with the header cells (blank), Mon, Tue and two rows after it: the first
  period with \<open>math_cell\<close> on Monday and an empty cell on Tuesday, and a row without cells.
\<close>

definition plain_cell :: "string \<Rightarrow> cell" where
  "plain_cell s = \<lparr>cell_text = ascii s, courseInfo = None\<rparr>"

definition grid_header :: row where
  "grid_header = [plain_cell '''', plain_cell ''Mon'', plain_cell ''Tue'']"

definition grid_rows :: "row list" where
  "grid_rows = [[plain_cell ''1'', math_cell, plain_cell ''''], []]"

text \<open>
  Three weeks: the browser shows the grid above for the first and the third, and
  raises an alert for the second.
\<close>

definition week_entry :: "string \<Rightarrow> js_option" where
  "week_entry i = \<lparr>entries = [(ascii ''id'', PStr (ascii i))], str_of = ascii ''{}''\<rparr>"

definition three_weeks :: "js_option list" where
  "three_weeks = [week_entry ''1'', week_entry ''2'', week_entry ''3'']"

definition grid_page :: week_page where
  "grid_page = \<lparr>script_ok = True, alert_text = None, rendered = True,
                 table_rows = Some (grid_header # grid_rows)\<rparr>"

definition alert_page :: week_page where
  "alert_page = \<lparr>script_ok = True, alert_text = Some (ascii ''no data''), rendered = True,
                  table_rows = Some (grid_header # grid_rows)\<rparr>"

definition alert_in_second :: "nat \<Rightarrow> week_page" where
  "alert_in_second widx = (if widx = 1 then alert_page else grid_page)"

text \<open>
  Browsers that always start, every driver object at an address of its own, and the
  service after start-up with them: five idle drivers. A captcha is issued at time 0
  for the session \<open>sid0\<close>, which binds driver 0.
\<close>

definition chrome_ok :: "nat \<Rightarrow> launch" where
  "chrome_ok n = Started n"

definition sid0 :: pystr where
  "sid0 = ascii ''9f86d081884c7d659a2feaa0c55ad015''"

definition data_src :: pystr where
  "data_src = ascii ''data:image/png;base64,iVBORw0KGgo=''"

definition started :: globals where
  "started = \<lparr>driver_pool = [0, 1, 2, 3, 4], drivers = [], driver_expiry = [],
              driver_usage_count = [], launched = 5, quit_calls = []\<rparr>"

definition session_at :: "real \<Rightarrow> globals" where
  "session_at t = \<lparr>driver_pool = [1, 2, 3, 4], drivers = [(sid0, 0)],
                   driver_expiry = [(sid0, t)], driver_usage_count = [],
                   launched = 5, quit_calls = []\<rparr>"

definition weeks_request :: SemesterWeeksRequest where
  "weeks_request = \<lparr>req_username = None, req_password = None, req_captcha = None,
                     req_session_id = Some sid0, req_sem_id = ascii ''42'',
                     req_max_weeks = 19\<rparr>"

text \<open>
  A browser installation where only the first start succeeds (\<open>chrome_dying\<close>), and
  one where the second and third start fail (\<open>chrome_flaky\<close>). With either, start-up
  leaves a pool of one driver; \<open>worn k\<close> is the state after \<open>k\<close> captcha requests
  whose page failed to load, each of which released the driver back to the pool.
\<close>

definition chrome_dying :: "nat \<Rightarrow> launch" where
  "chrome_dying n = (if n = 0 then Started 0 else NotCreated)"

definition chrome_flaky :: "nat \<Rightarrow> launch" where
  "chrome_flaky n = (if n = 1 \<or> n = 2 then NotCreated else Started n)"

definition worn :: "nat \<Rightarrow> globals" where
  "worn k = \<lparr>driver_pool = [0], drivers = [], driver_expiry = [],
             driver_usage_count = (if k = 0 then [] else [(0, k)]),
             launched = 3, quit_calls = []\<rparr>"


text \<open>
  Browsers that always start, where the driver objects of the first five calls lie at
  the addresses 100 to 104 and the sixth call, made when driver 2 is dead, gets the
  address 102 again. After start-up a pass of the memory monitor under memory
  pressure quits the drivers 0 and 1; \<open>spun a b c pool\<close> is a state after that in which
  the drivers 2, 3 and 4 have been released \<open>a\<close>, \<open>b\<close> and \<open>c\<close> times by captcha requests
  whose page failed to load. \<open>shrunk\<close> is the state after a second pass of the monitor
  under memory pressure, taken when each of the three has been released fifteen times:
  the drivers 2 and 3 are quit and their counters stay in the table. \<open>substituted\<close> is
  the state after the call of get_driver that follows.
\<close>

definition chrome_recycling :: "nat \<Rightarrow> launch" where
  "chrome_recycling n = Started (if n = 5 then 102 else 100 + n)"

definition spun :: "nat \<Rightarrow> nat \<Rightarrow> nat \<Rightarrow> driver list \<Rightarrow> globals" where
  "spun a b c pool =
     \<lparr>driver_pool = pool, drivers = [], driver_expiry = [],
      driver_usage_count =
        (if a = 0 then []
         else if b = 0 then [(102, a)]
         else if c = 0 then [(102, a), (103, b)]
         else [(102, a), (103, b), (104, c)]),
      launched = 5, quit_calls = [0, 1]\<rparr>"

definition shrunk :: globals where
  "shrunk = \<lparr>driver_pool = [4], drivers = [], driver_expiry = [],
             driver_usage_count = [(102, 15), (103, 15), (104, 15)],
             launched = 5, quit_calls = [0, 1, 2, 3]\<rparr>"

definition substituted :: globals where
  "substituted = \<lparr>driver_pool = [], drivers = [], driver_expiry = [],
                  driver_usage_count = [(102, 15), (103, 15), (104, 0)],
                  launched = 6, quit_calls = [0, 1, 2, 3, 4]\<rparr>"

text \<open>
  The state after a captcha request in the state \<open>started\<close> that reads the image,
  registers the session \<open>sid0\<close> at time 0 and then fails in one of the statements that
  follow the registration.
\<close>

definition bound_in_pool :: globals where
  "bound_in_pool = \<lparr>driver_pool = [1, 2, 3, 4, 0], drivers = [(sid0, 0)],
                    driver_expiry = [(sid0, 0)], driver_usage_count = [(0, 1)],
                    launched = 5, quit_calls = []\<rparr>"
section \<open>Properties\<close>

subsection \<open>Strings\<close>

lemma join_eq_Nil: "join sep parts = [] \<longleftrightarrow> (\<forall>p \<in> set parts. p = []) \<and> (sep = [] \<or> length parts \<le> 1)"
  by (induction sep parts rule: join.induct) auto

lemma length_join:
  "parts \<noteq> [] \<Longrightarrow>
   length (join sep parts) = sum_list (map length parts) + (length parts - 1) * length sep"
  by (induction sep parts rule: join.induct) auto

subsection \<open>Course text composition\<close>

lemma content_parts_filter:
  "content_parts b =
     filter (\<lambda>f. f \<noteq> []) [course_name b, class_info b, teacher b, location b]"
  by (simp add: content_parts_def append_if_def)

lemma join_nonempty_parts:
  "parts \<noteq> [] \<Longrightarrow> \<forall>p \<in> set parts. p \<noteq> [] \<Longrightarrow> join sep parts \<noteq> []"
  by (cases parts) (auto simp: join_eq_Nil)

lemma parse_course_content_filter:
  "parse_course_content c =
     (case courseInfo c of
        None \<Rightarrow> None
      | Some b \<Rightarrow>
          (let fs = filter (\<lambda>f. f \<noteq> []) [course_name b, class_info b, teacher b, location b]
           in if fs = [] then None else Some (join [32] fs)))"
proof (cases "courseInfo c")
  case None
  then show ?thesis by (simp add: parse_course_content_def)
next
  case (Some b)
  let ?fs = "filter (\<lambda>f. f \<noteq> []) [course_name b, class_info b, teacher b, location b]"
  have sp: "ascii '' '' = [32]"
    by (simp add: ascii_def)
  have parts: "content_parts b = ?fs"
    by (rule content_parts_filter)
  have ne: "?fs \<noteq> [] \<Longrightarrow> join [32] ?fs \<noteq> []"
    by (rule join_nonempty_parts) auto
  have e: "?fs = [] \<Longrightarrow> join [32] ?fs = []"
    by simp
  show ?thesis
    using Some ne e
    by (simp only: parse_course_content_def parts sp option.case Let_def split: if_splits)
       auto
qed

lemma course_name_first:
  "course_name spans = (case spans of [] \<Rightarrow> [] | sp # rest \<Rightarrow> span_text sp)"
  by (simp add: course_name_def find_span_def get_text_def split: list.splits)

lemma labelled_fields:
  "class_info spans =
     (case List.find (\<lambda>sp. ''teachCls'' \<in> set (span_class sp)) spans of
        None \<Rightarrow> [] | Some sp \<Rightarrow> span_text sp)"
  "teacher spans =
     (case List.find (\<lambda>sp. ''teacher'' \<in> set (span_class sp)) spans of
        None \<Rightarrow> [] | Some sp \<Rightarrow> span_text sp)"
  "location spans =
     (case List.find (\<lambda>sp. ''place'' \<in> set (span_class sp)) spans of
        None \<Rightarrow> [] | Some sp \<Rightarrow> span_text sp)"
  by (simp_all add: class_info_def teacher_def location_def find_span_class_def get_text_def)


text \<open>
  What parse_course_content composes, said of the spans of the block: the text is the
  join, with one space, of the non-empty texts among that of the first span, that of
  the first span of class \<open>teachCls\<close>, that of the first span of class \<open>teacher\<close> and that of
  the first span of class \<open>place\<close>, in this order; its length is the sum of their lengths
  plus one separator between neighbours. A block of two spans, the first with a text and
  none of the three classes, the second with a text and the class \<open>place\<close> only of the
  three, composes to the first text, one space, the second text. A cell without a block,
  or with a block in which none of the four texts is non-empty, yields no text.
\<close>

theorem course_text_from_spans:
  "parse_course_content c =
     (case courseInfo c of
        None \<Rightarrow> None
      | Some spans \<Rightarrow>
          (let fs = filter (\<lambda>f. f \<noteq> [])
                 [case spans of [] \<Rightarrow> [] | sp # rest \<Rightarrow> span_text sp,
                  case List.find (\<lambda>sp. ''teachCls'' \<in> set (span_class sp)) spans of
                    None \<Rightarrow> [] | Some sp \<Rightarrow> span_text sp,
                  case List.find (\<lambda>sp. ''teacher'' \<in> set (span_class sp)) spans of
                    None \<Rightarrow> [] | Some sp \<Rightarrow> span_text sp,
                  case List.find (\<lambda>sp. ''place'' \<in> set (span_class sp)) spans of
                    None \<Rightarrow> [] | Some sp \<Rightarrow> span_text sp]
           in if fs = [] then None else Some (join [32] fs)))
   \<and> (\<forall>spans content. courseInfo c = Some spans \<and> parse_course_content c = Some content \<longrightarrow>
         (\<exists>fs. fs = filter (\<lambda>f. f \<noteq> [])
                 [case spans of [] \<Rightarrow> [] | sp # rest \<Rightarrow> span_text sp,
                  case List.find (\<lambda>sp. ''teachCls'' \<in> set (span_class sp)) spans of
                    None \<Rightarrow> [] | Some sp \<Rightarrow> span_text sp,
                  case List.find (\<lambda>sp. ''teacher'' \<in> set (span_class sp)) spans of
                    None \<Rightarrow> [] | Some sp \<Rightarrow> span_text sp,
                  case List.find (\<lambda>sp. ''place'' \<in> set (span_class sp)) spans of
                    None \<Rightarrow> [] | Some sp \<Rightarrow> span_text sp]
            \<and> length content = sum_list (map length fs) + (length fs - 1)))
   \<and> (\<forall>n p. courseInfo c = Some [n, p]
          \<and> ''teachCls'' \<notin> set (span_class n) \<and> ''teacher'' \<notin> set (span_class n)
          \<and> ''place'' \<notin> set (span_class n)
          \<and> ''teachCls'' \<notin> set (span_class p) \<and> ''teacher'' \<notin> set (span_class p)
          \<and> ''place'' \<in> set (span_class p)
          \<and> span_text n \<noteq> [] \<and> span_text p \<noteq> [] \<longrightarrow>
         parse_course_content c = Some (span_text n @ [32] @ span_text p))
   \<and> (courseInfo c = None \<longrightarrow> parse_course_content c = None)
   \<and> (\<forall>spans. courseInfo c = Some spans \<and> (\<forall>sp \<in> set spans. span_text sp = []) \<longrightarrow>
         parse_course_content c = None)"
proof -
  let ?texts = "\<lambda>spans.
     [case spans of [] \<Rightarrow> [] | sp # rest \<Rightarrow> span_text sp,
      case List.find (\<lambda>sp. ''teachCls'' \<in> set (span_class sp)) spans of
        None \<Rightarrow> [] | Some sp \<Rightarrow> span_text sp,
      case List.find (\<lambda>sp. ''teacher'' \<in> set (span_class sp)) spans of
        None \<Rightarrow> [] | Some sp \<Rightarrow> span_text sp,
      case List.find (\<lambda>sp. ''place'' \<in> set (span_class sp)) spans of
        None \<Rightarrow> [] | Some sp \<Rightarrow> span_text sp]"
  have fields: "[course_name spans, class_info spans, teacher spans, location spans]
      = ?texts spans" for spans
    by (simp only: course_name_first labelled_fields)
  have main: "parse_course_content c =
     (case courseInfo c of
        None \<Rightarrow> None
      | Some spans \<Rightarrow>
          (let fs = filter (\<lambda>f. f \<noteq> []) (?texts spans)
           in if fs = [] then None else Some (join [32] fs)))"
    by (simp only: parse_course_content_filter fields)
  have len: "\<exists>fs. fs = filter (\<lambda>f. f \<noteq> []) (?texts spans)
            \<and> length content = sum_list (map length fs) + (length fs - 1)"
    if b: "courseInfo c = Some spans \<and> parse_course_content c = Some content"
    for spans content
  proof -
    let ?fs = "filter (\<lambda>f. f \<noteq> []) (?texts spans)"
    from main b have fs: "?fs \<noteq> []" and content: "content = join [32] ?fs"
      by (auto simp: Let_def split: if_splits)
    from length_join [OF fs, of "[32]"] content
    have "length content = sum_list (map length ?fs) + (length ?fs - 1)"
      by simp
    then show ?thesis by blast
  qed
  have name_place: "parse_course_content c = Some (span_text n @ [32] @ span_text p)"
    if h: "courseInfo c = Some [n, p]
          \<and> ''teachCls'' \<notin> set (span_class n) \<and> ''teacher'' \<notin> set (span_class n)
          \<and> ''place'' \<notin> set (span_class n)
          \<and> ''teachCls'' \<notin> set (span_class p) \<and> ''teacher'' \<notin> set (span_class p)
          \<and> ''place'' \<in> set (span_class p)
          \<and> span_text n \<noteq> [] \<and> span_text p \<noteq> []" for n p
  proof -
    from h have "?texts [n, p] = [span_text n, [], [], span_text p]"
      by simp
    with h main show ?thesis
      by simp
  qed
  have none1: "courseInfo c = None \<longrightarrow> parse_course_content c = None"
    using main by simp
  have none2: "parse_course_content c = None"
    if h: "courseInfo c = Some spans \<and> (\<forall>sp \<in> set spans. span_text sp = [])" for spans
  proof -
    have found: "(case List.find P spans of None \<Rightarrow> [] | Some sp \<Rightarrow> span_text sp) = []" for P
    proof (cases "List.find P spans")
      case None
      then show ?thesis by simp
    next
      case (Some sp)
      then have "sp \<in> set spans"
        by (auto simp: find_Some_iff)
      with h Some show ?thesis by simp
    qed
    have first: "(case spans of [] \<Rightarrow> [] | sp # rest \<Rightarrow> span_text sp) = []"
      using h by (cases spans) simp_all
    have "filter (\<lambda>f. f \<noteq> []) (?texts spans) = []"
      by (simp only: found first) simp
    with h main show ?thesis
      by (simp add: Let_def)
  qed
  from main len name_place none1 none2 show ?thesis
    by blast
qed

text \<open>
  For the block with all four spans the text is \<open>Math 1A Smith A101\<close>, of eighteen
  characters; for the block with a name and a place it is \<open>Math A101\<close>; a cell without a
  block and a cell with an empty block yield nothing.
\<close>

theorem course_text_from_spans_witness:
  "parse_course_content full_cell = Some (ascii ''Math 1A Smith A101'')
   \<and> (\<exists>content. parse_course_content full_cell = Some content \<and> length content = 18)
   \<and> parse_course_content math_cell = Some (ascii ''Math A101'')
   \<and> parse_course_content \<lparr>cell_text = [], courseInfo = None\<rparr> = None
   \<and> parse_course_content \<lparr>cell_text = [], courseInfo = Some []\<rparr> = None"
proof -
  note t = course_text_from_spans [of full_cell]
  have ci: "courseInfo full_cell = Some full_block"
    by (simp add: full_cell_def)
  from t [THEN conjunct1] have a: "parse_course_content full_cell = Some (ascii ''Math 1A Smith A101'')"
    by (simp add: ci) (simp add: full_block_def ascii_def)
  from t [THEN conjunct2, THEN conjunct1, rule_format, of full_block "ascii ''Math 1A Smith A101''"]
    ci a
  obtain fs where fs: "fs = filter (\<lambda>f. f \<noteq> [])
                 [case full_block of [] \<Rightarrow> [] | sp # rest \<Rightarrow> span_text sp,
                  case List.find (\<lambda>sp. ''teachCls'' \<in> set (span_class sp)) full_block of
                    None \<Rightarrow> [] | Some sp \<Rightarrow> span_text sp,
                  case List.find (\<lambda>sp. ''teacher'' \<in> set (span_class sp)) full_block of
                    None \<Rightarrow> [] | Some sp \<Rightarrow> span_text sp,
                  case List.find (\<lambda>sp. ''place'' \<in> set (span_class sp)) full_block of
                    None \<Rightarrow> [] | Some sp \<Rightarrow> span_text sp]"
    and len: "length (ascii ''Math 1A Smith A101'') = sum_list (map length fs) + (length fs - 1)"
    by blast
  from fs have "fs = [ascii ''Math'', ascii ''1A'', ascii ''Smith'', ascii ''A101'']"
    by (simp add: full_block_def ascii_def)
  with len have "length (ascii ''Math 1A Smith A101'') = 18"
    by (simp add: ascii_def)
  with a have b: "\<exists>content. parse_course_content full_cell = Some content \<and> length content = 18"
    by simp
  have mc: "courseInfo math_cell = Some [\<lparr>span_class = [], span_text = ascii ''Math''\<rparr>,
                 \<lparr>span_class = [''place''], span_text = ascii ''A101''\<rparr>]"
    by (simp add: math_cell_def math_block_def)
  from course_text_from_spans [of math_cell, THEN conjunct2, THEN conjunct2, THEN conjunct1,
      rule_format, of "\<lparr>span_class = [], span_text = ascii ''Math''\<rparr>"
        "\<lparr>span_class = [''place''], span_text = ascii ''A101''\<rparr>"] mc
  have c: "parse_course_content math_cell = Some (ascii ''Math A101'')"
    by (simp add: ascii_def)
  have d: "parse_course_content \<lparr>cell_text = [], courseInfo = None\<rparr> = None"
    using course_text_from_spans [of "\<lparr>cell_text = [], courseInfo = None\<rparr>", THEN conjunct2,
        THEN conjunct2, THEN conjunct2, THEN conjunct1]
    by simp
  have e: "parse_course_content \<lparr>cell_text = [], courseInfo = Some []\<rparr> = None"
    using course_text_from_spans [of "\<lparr>cell_text = [], courseInfo = Some []\<rparr>", THEN conjunct2,
        THEN conjunct2, THEN conjunct2, THEN conjunct2, rule_format, of "[]"]
    by simp
  from a b c d e show ?thesis by simp
qed

subsection \<open>Default semester\<close>

lemma startswith_iff: "startswith s p \<longleftrightarrow> (\<exists>suf. s = p @ suf)"
  by (induction s p rule: startswith.induct) auto

lemma py_in_iff: "py_in t s \<longleftrightarrow> (\<exists>pre suf. s = pre @ t @ suf)"
proof (induction s)
  case Nil
  then show ?case by auto
next
  case (Cons c cs)
  show ?case
  proof
    assume "py_in t (c # cs)"
    then consider "startswith (c # cs) t" | "py_in t cs" by auto
    then show "\<exists>pre suf. c # cs = pre @ t @ suf"
    proof cases
      case 1
      then obtain suf where "c # cs = t @ suf" by (auto simp: startswith_iff)
      then have "c # cs = [] @ t @ suf" by simp
      then show ?thesis by blast
    next
      case 2
      with Cons obtain pre suf where "cs = pre @ t @ suf" by auto
      then have "c # cs = (c # pre) @ t @ suf" by simp
      then show ?thesis by blast
    qed
  next
    assume "\<exists>pre suf. c # cs = pre @ t @ suf"
    then obtain pre suf where e: "c # cs = pre @ t @ suf" by auto
    show "py_in t (c # cs)"
    proof (cases pre)
      case Nil
      with e have "startswith (c # cs) t" by (auto simp: startswith_iff)
      then show ?thesis by simp
    next
      case (Cons a pre')
      with e have "cs = pre' @ t @ suf" by simp
      with Cons.IH show ?thesis by auto
    qed
  qed
qed

lemma any_in_single:
  "any_in [label] v = (case v of PStr s \<Rightarrow> Inr (py_in label s) | _ \<Rightarrow> Inl TypeError)"
  by (cases v) auto

lemma find_current_Inr:
  "find_current [label] sem_options = Inr r \<Longrightarrow>
   r = map_option (\<lambda>sem. snd (val_name sem)) (List.find (name_contains label) sem_options)"
proof (induction sem_options)
  case Nil
  then show ?case by simp
next
  case (Cons sem rest)
  show ?case
  proof (cases "snd (val_name sem)")
    case (PStr s)
    with Cons show ?thesis
      by (cases "py_in label s") (auto simp: name_contains_def)
  qed (use Cons in \<open>auto simp: name_contains_def\<close>)
qed

lemma find_current_total:
  "\<forall>sem \<in> set sem_options. is_str (snd (val_name sem)) \<Longrightarrow>
   \<exists>r. find_current [label] sem_options = Inr r"
proof (induction sem_options)
  case Nil
  then show ?case by simp
next
  case (Cons sem rest)
  then obtain s where s: "snd (val_name sem) = PStr s"
    by (auto simp: is_str_def split: pyval.splits)
  from Cons obtain r where "find_current [label] rest = Inr r" by auto
  with s show ?case by (cases "py_in label s") auto
qed

lemma target_names_single: "\<exists>label. target_names year month = [label]"
  by (simp add: target_names_def)

declare str_nat.simps [simp del]

lemma str_int_2024: "str_int 2024 = ascii ''2024''" "str_int 2025 = ascii ''2025''" "str_int 2023 = ascii ''2023''"
  by (simp_all add: str_int_def str_nat.simps ascii_def)


text \<open>
  Claim C8. The label of the current term is computed from the year and the month
  alone: from September on the autumn term of this and the next year, from March on the
  spring term of the previous and this year, before March the autumn term of the
  previous and this year. Whenever the inference returns, the default semester is the
  name of the first entry whose display name contains the label, and the name of the
  first entry of the dataset when no name contains it (nothing for an empty dataset);
  it does return when every display name is a string. In month 10 of 2024 the label is
  2024-2025 followed by the autumn suffix, and an entry of that name is selected when
  no entry before it contains the label.
\<close>

theorem default_semester_inference:
  "(9 \<le> month \<longrightarrow>
      target_names year month =
        [str_int year @ ascii ''-'' @ str_int (year + 1) @ autumn_term])
   \<and> (3 \<le> month \<and> month < 9 \<longrightarrow>
      target_names year month =
        [str_int (year - 1) @ ascii ''-'' @ str_int year @ spring_term])
   \<and> (month < 3 \<longrightarrow>
      target_names year month =
        [str_int (year - 1) @ ascii ''-'' @ str_int year @ autumn_term])
   \<and> (\<forall>label r. target_names year month = [label]
          \<and> default_semester year month sem_options = Inr r \<longrightarrow>
        r = (case List.find (name_contains label) sem_options of
               Some sem \<Rightarrow> Some (snd (val_name sem))
             | None \<Rightarrow>
                 (case sem_options of [] \<Rightarrow> None | sem # _ \<Rightarrow> Some (snd (val_name sem)))))
   \<and> ((\<forall>sem \<in> set sem_options. is_str (snd (val_name sem))) \<longrightarrow>
        (\<exists>r. default_semester year month sem_options = Inr r))
   \<and> target_names 2024 10 = [ascii ''2024-2025'' @ autumn_term]
   \<and> (\<forall>before sem after.
         year = 2024 \<and> month = 10 \<and> sem_options = before @ sem # after
         \<and> snd (val_name sem) = PStr (ascii ''2024-2025'' @ autumn_term)
         \<and> (\<forall>b \<in> set before. is_str (snd (val_name b))
               \<and> \<not> name_contains (ascii ''2024-2025'' @ autumn_term) b) \<longrightarrow>
         default_semester year month sem_options =
           Inr (Some (PStr (ascii ''2024-2025'' @ autumn_term))))"
proof -
  have t1: "9 \<le> month \<longrightarrow>
      target_names year month =
        [str_int year @ ascii ''-'' @ str_int (year + 1) @ autumn_term]"
    by (simp add: target_names_def)
  have t2: "3 \<le> month \<and> month < 9 \<longrightarrow>
      target_names year month =
        [str_int (year - 1) @ ascii ''-'' @ str_int year @ spring_term]"
    by (simp add: target_names_def)
  have t3: "month < 3 \<longrightarrow>
      target_names year month =
        [str_int (year - 1) @ ascii ''-'' @ str_int year @ autumn_term]"
    by (simp add: target_names_def)
  have sel: "r = (case List.find (name_contains label) sem_options of
               Some sem \<Rightarrow> Some (snd (val_name sem))
             | None \<Rightarrow>
                 (case sem_options of [] \<Rightarrow> None | sem # _ \<Rightarrow> Some (snd (val_name sem))))"
    if "target_names year month = [label] \<and> default_semester year month sem_options = Inr r"
    for label r
  proof -
    from that have tn: "target_names year month = [label]"
      and ds: "default_semester year month sem_options = Inr r" by auto
    from ds obtain cur where cur: "find_current [label] sem_options = Inr cur"
      by (auto simp: default_semester_def tn split: sum.splits)
    from find_current_Inr [OF cur]
    have c: "cur = map_option (\<lambda>sem. snd (val_name sem))
                    (List.find (name_contains label) sem_options)" .
    show ?thesis
    proof (cases "List.find (name_contains label) sem_options")
      case None
      with c have "cur = None" by simp
      with cur have "find_current (target_names year month) sem_options = Inr None"
        by (simp add: tn)
      then have "default_semester year month sem_options =
          Inr (case sem_options of [] \<Rightarrow> None | sem # _ \<Rightarrow> Some (snd (val_name sem)))"
        by (simp add: default_semester_def all_semesters_meta_def split: list.splits)
      with ds None show ?thesis
        by simp
    next
      case (Some sem)
      with c have "cur = Some (snd (val_name sem))" by simp
      with ds cur tn show ?thesis
        by (auto simp: default_semester_def Some)
    qed
  qed
  have tot: "(\<forall>sem \<in> set sem_options. is_str (snd (val_name sem))) \<longrightarrow>
        (\<exists>r. default_semester year month sem_options = Inr r)"
  proof
    assume a: "\<forall>sem \<in> set sem_options. is_str (snd (val_name sem))"
    obtain label where tn: "target_names year month = [label]"
      using target_names_single by blast
    from find_current_total [OF a, of label]
    obtain cur where "find_current [label] sem_options = Inr cur" by blast
    then show "\<exists>r. default_semester year month sem_options = Inr r"
      by (cases cur; cases sem_options)
         (auto simp: default_semester_def tn all_semesters_meta_def)
  qed
  have ex1: "target_names 2024 10 = [ascii ''2024-2025'' @ autumn_term]"
    by (simp add: target_names_def str_int_2024 ascii_def)
  have ex2: "default_semester year month sem_options =
           Inr (Some (PStr (ascii ''2024-2025'' @ autumn_term)))"
    if h: "year = 2024 \<and> month = 10 \<and> sem_options = before @ sem # after
         \<and> snd (val_name sem) = PStr (ascii ''2024-2025'' @ autumn_term)
         \<and> (\<forall>b \<in> set before. is_str (snd (val_name b))
               \<and> \<not> name_contains (ascii ''2024-2025'' @ autumn_term) b)"
    for before sem after
  proof -
    let ?label = "ascii ''2024-2025'' @ autumn_term"
    from h have so: "sem_options = before @ sem # after"
      and nm: "snd (val_name sem) = PStr ?label"
      and bf: "\<forall>b \<in> set before. is_str (snd (val_name b)) \<and> \<not> name_contains ?label b"
      and ym: "year = 2024" "month = 10"
      by auto
    have self: "py_in ?label ?label"
      using py_in_iff [of ?label ?label] by (metis append_Nil append_Nil2)
    have "find_current [?label] (before @ sem # after) = Inr (Some (PStr ?label))"
      using bf
    proof (induction before)
      case Nil
      then show ?case using nm self by simp
    next
      case (Cons b bs)
      then obtain s where s: "snd (val_name b) = PStr s"
        by (auto simp: is_str_def split: pyval.splits)
      with Cons.prems have "\<not> py_in ?label s"
        by (simp add: name_contains_def)
      with s Cons show ?case by simp
    qed
    then show ?thesis
      using ex1 by (simp add: default_semester_def so ym)
  qed
  from t1 t2 t3 sel tot ex1 ex2 show ?thesis
    by blast
qed

text \<open>
  In October 2024, with the dataset \<open>three_semesters\<close>, the second entry is selected: its
  name is the inferred label, and the first entry, a spring term, does not contain it.
\<close>

theorem default_semester_inference_witness:
  "target_names 2024 10 = [ascii ''2024-2025'' @ autumn_term]
   \<and> default_semester 2024 10 three_semesters =
        Inr (Some (PStr (ascii ''2024-2025'' @ autumn_term)))
   \<and> (9::nat) \<le> 10
   \<and> (\<exists>r. default_semester 2024 3 three_semesters = Inr r)"
proof -
  let ?label = "ascii ''2024-2025'' @ autumn_term"
  let ?first = "sem_entry ''41'' (ascii ''2023-2024'' @ spring_term)"
  let ?second = "sem_entry ''42'' (ascii ''2024-2025'' @ autumn_term)"
  let ?third = "sem_entry ''43'' (ascii ''2024-2025'' @ spring_term)"
  have names: "snd (val_name (sem_entry i nm)) = (if nm = [] then PStr (ascii ''{}'') else PStr nm)"
    for i nm
    by (simp add: val_name_def sem_entry_def opt_get_def py_or_def ascii_def)
  have n1: "snd (val_name ?first) = PStr (ascii ''2023-2024'' @ spring_term)"
    by (simp add: names ascii_def)
  have n2: "snd (val_name ?second) = PStr ?label"
    by (simp add: names ascii_def)
  have n3: "snd (val_name ?third) = PStr (ascii ''2024-2025'' @ spring_term)"
    by (simp add: names ascii_def)
  have no: "\<not> name_contains ?label ?first"
    by (simp add: name_contains_def n1) (simp add: ascii_def autumn_term_def spring_term_def)
  have split: "three_semesters = [?first] @ ?second # [?third]"
    by (simp add: three_semesters_def)
  have a: "target_names 2024 10 = [?label]"
    using default_semester_inference [of 10 2024 three_semesters]
    by blast
  have b: "default_semester 2024 10 three_semesters = Inr (Some (PStr ?label))"
    using default_semester_inference [of 10 2024 three_semesters, THEN conjunct2,
        THEN conjunct2, THEN conjunct2, THEN conjunct2, THEN conjunct2, THEN conjunct2,
        rule_format, of "[?first]" ?second "[?third]"]
      split n2 no n1
    by (simp add: is_str_def)
  have strs: "\<forall>sem \<in> set three_semesters. is_str (snd (val_name sem))"
    by (simp add: three_semesters_def n1 n2 n3 is_str_def)
  have c: "\<exists>r. default_semester 2024 3 three_semesters = Inr r"
    using default_semester_inference [of 3 2024 three_semesters, THEN conjunct2,
        THEN conjunct2, THEN conjunct2, THEN conjunct2, THEN conjunct1] strs
    by blast
  from a b c show ?thesis by simp
qed

subsection \<open>Grid parsing\<close>

lemma parse_course_content_nonempty: "parse_course_content c = Some t \<Longrightarrow> t \<noteq> []"
  by (auto simp: parse_course_content_def Let_def split: option.splits if_splits)

lemma cell_records_pair:
  "cell_records days per day (i, c) =
     (if days ! i = day
      then (case parse_course_content c of
              None \<Rightarrow> []
            | Some text \<Rightarrow> [\<lparr>period = per, content = text\<rparr>])
      else [])"
  by (simp add: cell_records_def)

lemma add_cells_total:
  "i + length cs \<le> length days \<Longrightarrow> set days \<subseteq> fst ` set wc \<Longrightarrow>
   \<exists>wc'. add_cells days per i cs wc = Inr wc' \<and> map fst wc' = map fst wc
     \<and> (\<forall>day. map_of wc' day =
           map_option (\<lambda>recs. recs @ concat (map (cell_records days per day) (enumerate i cs)))
             (map_of wc day))"
proof (induction cs arbitrary: i wc)
  case Nil
  then show ?case by (simp add: option.map_ident)
next
  case (Cons c cs)
  from Cons.prems have i: "i < length days" and rest: "Suc i + length cs \<le> length days"
    by auto
  show ?case
  proof (cases "parse_course_content c")
    case None
    from Cons.IH [OF rest Cons.prems(2)] obtain wc' where
      "add_cells days per (Suc i) cs wc = Inr wc'" "map fst wc' = map fst wc"
      "\<forall>day. map_of wc' day =
           map_option (\<lambda>recs. recs @ concat (map (cell_records days per day) (enumerate (Suc i) cs)))
             (map_of wc day)"
      by blast
    with None show ?thesis
      by (simp add: cell_records_pair)
  next
    case (Some t)
    then have t: "t \<noteq> []" by (rule parse_course_content_nonempty)
    from i Cons.prems(2) have "days ! i \<in> fst ` set wc"
      using nth_mem by blast
    then obtain recs where recs: "map_of wc (days ! i) = Some recs"
      by (metis domD dom_map_of_conv_image_fst)
    let ?wc1 = "AList.update (days ! i) (recs @ [\<lparr>period = per, content = t\<rparr>]) wc"
    have keys1: "map fst ?wc1 = map fst wc"
      using \<open>days ! i \<in> fst ` set wc\<close> by (simp add: update_keys)
    then have sub1: "set days \<subseteq> fst ` set ?wc1"
      using Cons.prems(2) by (metis list.set_map)
    from Cons.IH [OF rest sub1] obtain wc' where
      r: "add_cells days per (Suc i) cs ?wc1 = Inr wc'" and k: "map fst wc' = map fst ?wc1"
      and m: "\<forall>day. map_of wc' day =
           map_option (\<lambda>recs. recs @ concat (map (cell_records days per day) (enumerate (Suc i) cs)))
             (map_of ?wc1 day)"
      by blast
    have run: "add_cells days per i (c # cs) wc = Inr wc'"
      using Some t i recs r by simp
    have "map_of wc' day =
           map_option (\<lambda>recs. recs @ concat (map (cell_records days per day) (enumerate i (c # cs))))
             (map_of wc day)" for day
    proof (cases "days ! i = day")
      case True
      with m recs Some show ?thesis
        by (simp add: update_conv' cell_records_pair)
    next
      case False
      with m Some show ?thesis
        by (simp add: update_conv' cell_records_pair)
    qed
    with run k keys1 show ?thesis by simp
  qed
qed


lemma empty_courses_foldl:
  "map_of (foldl (\<lambda>wc day. AList.update day [] wc) wc0 days) day =
     (if day \<in> set days then Some [] else map_of wc0 day)"
  by (induction days arbitrary: wc0) (auto simp: update_conv')

lemma empty_courses_distinct_foldl:
  "distinct (map fst wc0) \<Longrightarrow>
   distinct (map fst (foldl (\<lambda>wc day. AList.update day [] wc) wc0 days))"
  by (induction days arbitrary: wc0) (auto simp: distinct_update)

lemma empty_courses_keys_foldl:
  "fst ` set (foldl (\<lambda>wc day. AList.update day [] wc) wc0 days) = set days \<union> fst ` set wc0"
  by (induction days arbitrary: wc0) (auto simp: dom_update)

lemma map_of_empty_courses:
  "map_of (empty_courses days) day = (if day \<in> set days then Some [] else None)"
  by (simp add: empty_courses_def empty_courses_foldl)

lemma distinct_empty_courses: "distinct (map fst (empty_courses days))"
  by (simp add: empty_courses_def empty_courses_distinct_foldl)

lemma keys_empty_courses: "fst ` set (empty_courses days) = set days"
  by (simp add: empty_courses_def empty_courses_keys_foldl)

lemma cell_records_header:
  "i + length cs < length header \<Longrightarrow>
   concat (map (cell_records (drop 1 (map cell_text header)) per day) (enumerate i cs)) =
   concat (map (\<lambda>(col, c).
                  if cell_text (header ! col) = day
                  then (case parse_course_content c of
                          None \<Rightarrow> []
                        | Some text \<Rightarrow> [\<lparr>period = per, content = text\<rparr>])
                  else [])
            (enumerate (Suc i) cs))"
  by (induction cs arbitrary: i) (auto simp: cell_records_pair)

lemma add_rows_total:
  "\<forall>cells \<in> set rows. length cells \<le> length header \<Longrightarrow>
   set (drop 1 (map cell_text header)) \<subseteq> fst ` set wc \<Longrightarrow>
   \<exists>wc'. add_rows (drop 1 (map cell_text header)) rows wc = Inr wc'
     \<and> map fst wc' = map fst wc
     \<and> (\<forall>day. map_of wc' day =
           map_option (\<lambda>recs. recs @ column_records header rows day) (map_of wc day))"
proof (induction rows arbitrary: wc)
  case Nil
  then show ?case by (simp add: column_records_def option.map_ident)
next
  case (Cons cells rows)
  let ?days = "drop 1 (map cell_text header)"
  from Cons.prems have later: "\<forall>cells \<in> set rows. length cells \<le> length header"
    by simp
  show ?case
  proof (cases cells)
    case Nil
    from Cons.IH [OF later Cons.prems(2)] Nil show ?thesis
      by (simp add: column_records_def row_records_def)
  next
    case (Cons c0 cs)
    with Cons.prems(1) have len: "0 + length cs < length header"
      by simp
    then have "0 + length cs \<le> length ?days"
      by simp
    from add_cells_total [OF this Cons.prems(2), of "period_of c0"] obtain wc1 where
      r1: "add_cells ?days (period_of c0) 0 cs wc = Inr wc1"
      and k1: "map fst wc1 = map fst wc"
      and m1: "\<forall>day. map_of wc1 day =
           map_option (\<lambda>recs. recs @ concat (map (cell_records ?days (period_of c0) day)
                                               (enumerate 0 cs)))
             (map_of wc day)"
      by blast
    from k1 Cons.prems(2) have sub1: "set ?days \<subseteq> fst ` set wc1"
      by (metis list.set_map)
    from Cons.IH [OF later sub1] obtain wc' where
      r: "add_rows ?days rows wc1 = Inr wc'"
      and k: "map fst wc' = map fst wc1"
      and m: "\<forall>day. map_of wc' day =
           map_option (\<lambda>recs. recs @ column_records header rows day) (map_of wc1 day)"
      by blast
    have row: "concat (map (cell_records ?days (period_of c0) day) (enumerate 0 cs)) =
        row_records header day cells" for day
      using cell_records_header [OF len, of "period_of c0" day]
      by (simp add: row_records_def Cons)
    have "map_of wc' day =
           map_option (\<lambda>recs. recs @ column_records header (cells # rows) day) (map_of wc day)"
      for day
      using m m1 row [of day]
      by (cases "map_of wc day") (simp_all add: column_records_def)
    with r r1 k k1 Cons show ?thesis
      by simp
  qed
qed

lemma add_rows_skips_empty:
  "add_rows days (rows1 @ [] # rows2) wc = add_rows days (rows1 @ rows2) wc"
proof (induction rows1 arbitrary: wc)
  case Nil
  then show ?case by simp
next
  case (Cons cells rows1)
  then show ?case
    by (cases cells) (auto split: sum.splits)
qed

text \<open>
  Claim C10. When no row after the header has more cells than the header row, the
  grid parsing returns a result (no lookup of a day label is out of range): the result
  holds exactly the day labels of the header, each once, and under each label the
  records of the cells that stand in a column whose header cell carries this label, in
  the order of the rows. A row without cells is skipped: it changes nothing.
\<close>

theorem grid_parsing_total:
  "(\<forall>cells \<in> set rows. length cells \<le> length header) \<longrightarrow>
     (\<exists>wc. parse_grid header rows = Inr wc
        \<and> distinct (map fst wc)
        \<and> set (map fst wc) = set (drop 1 (map cell_text header))
        \<and> (\<forall>day. map_of wc day =
              (if day \<in> set (drop 1 (map cell_text header))
               then Some (column_records header rows day) else None))
        \<and> (\<forall>rows1 rows2. rows = rows1 @ [] # rows2 \<longrightarrow>
              parse_grid header (rows1 @ rows2) = Inr wc))"
proof
  assume fit: "\<forall>cells \<in> set rows. length cells \<le> length header"
  let ?days = "drop 1 (map cell_text header)"
  have "set ?days \<subseteq> fst ` set (empty_courses ?days)"
    by (simp add: keys_empty_courses)
  from add_rows_total [OF fit this] obtain wc where
    r: "add_rows ?days rows (empty_courses ?days) = Inr wc"
    and k: "map fst wc = map fst (empty_courses ?days)"
    and m: "\<forall>day. map_of wc day =
           map_option (\<lambda>recs. recs @ column_records header rows day)
             (map_of (empty_courses ?days) day)"
    by blast
  have run: "parse_grid header rows = Inr wc"
    using r by (simp add: parse_grid_def)
  have d: "distinct (map fst wc)"
    using k distinct_empty_courses by simp
  have s: "set (map fst wc) = set ?days"
    using k keys_empty_courses [of ?days] by simp
  have c: "\<forall>day. map_of wc day =
              (if day \<in> set ?days then Some (column_records header rows day) else None)"
    using m by (simp add: map_of_empty_courses)
  have e: "\<forall>rows1 rows2. rows = rows1 @ [] # rows2 \<longrightarrow>
              parse_grid header (rows1 @ rows2) = Inr wc"
    using run by (auto simp: parse_grid_def add_rows_skips_empty)
  from run d s c e
  show "\<exists>wc. parse_grid header rows = Inr wc
        \<and> distinct (map fst wc)
        \<and> set (map fst wc) = set ?days
        \<and> (\<forall>day. map_of wc day =
              (if day \<in> set ?days then Some (column_records header rows day) else None))
        \<and> (\<forall>rows1 rows2. rows = rows1 @ [] # rows2 \<longrightarrow>
              parse_grid header (rows1 @ rows2) = Inr wc)"
    by blast
qed

text \<open>
  The grid \<open>grid_header\<close>, \<open>grid_rows\<close>: both rows fit the header, the record of
  \<open>math_cell\<close> stands under Mon, and Tue has no record.
\<close>

theorem grid_parsing_total_witness:
  "\<exists>wc. parse_grid grid_header grid_rows = Inr wc
     \<and> map_of wc (ascii ''Mon'') = Some [\<lparr>period = ascii ''1'', content = ascii ''Math A101''\<rparr>]
     \<and> map_of wc (ascii ''Tue'') = Some []
     \<and> map_of wc (ascii ''Wed'') = None
     \<and> parse_grid grid_header [[plain_cell ''1'', math_cell, plain_cell '''']] = Inr wc"
proof -
  have fit: "\<forall>cells \<in> set grid_rows. length cells \<le> length grid_header"
    by (simp add: grid_rows_def grid_header_def)
  have days: "drop 1 (map cell_text grid_header) = [ascii ''Mon'', ascii ''Tue'']"
    by (simp add: grid_header_def plain_cell_def)
  have p: "parse_course_content math_cell = Some (ascii ''Math A101'')"
    "parse_course_content (plain_cell '''') = None"
    by (simp_all add: parse_course_content_def math_cell_def math_block_def plain_cell_def
        content_parts_def append_if_def course_name_def class_info_def teacher_def
        location_def find_span_def find_span_class_def get_text_def ascii_def)
  have mon: "column_records grid_header grid_rows (ascii ''Mon'') =
      [\<lparr>period = ascii ''1'', content = ascii ''Math A101''\<rparr>]"
    by (simp add: column_records_def row_records_def grid_rows_def grid_header_def p)
       (simp add: plain_cell_def period_of_def ascii_def)
  have tue: "column_records grid_header grid_rows (ascii ''Tue'') = []"
    by (simp add: column_records_def row_records_def grid_rows_def grid_header_def p)
       (simp add: plain_cell_def period_of_def ascii_def)
  have split: "grid_rows = [[plain_cell ''1'', math_cell, plain_cell '''']] @ [] # []"
    by (simp add: grid_rows_def)
  from grid_parsing_total [of grid_rows grid_header, THEN mp, OF fit]
  obtain wc where r: "parse_grid grid_header grid_rows = Inr wc"
    and m: "\<forall>day. map_of wc day =
              (if day \<in> set (drop 1 (map cell_text grid_header))
               then Some (column_records grid_header grid_rows day) else None)"
    and e: "\<forall>rows1 rows2. grid_rows = rows1 @ [] # rows2 \<longrightarrow>
              parse_grid grid_header (rows1 @ rows2) = Inr wc"
    by blast
  from e split have e': "parse_grid grid_header [[plain_cell ''1'', math_cell, plain_cell '''']] = Inr wc"
    by (metis append_Nil2)
  note m' = m [unfolded days]
  have a: "map_of wc (ascii ''Mon'') = Some [\<lparr>period = ascii ''1'', content = ascii ''Math A101''\<rparr>]"
    using m' mon by simp
  have b: "map_of wc (ascii ''Tue'') = Some []"
    using m' tue by simp
  have c: "map_of wc (ascii ''Wed'') = None"
    using m' by (simp add: ascii_def)
  from r a b c e' show ?thesis by blast
qed

subsection \<open>Extraction loop\<close>

lemma week_step_skipped: "skipped page \<Longrightarrow> week_step wopt page = Inr None"
  by (auto simp: skipped_def week_step_def split: option.splits)

lemma week_entries_pair:
  "week_entries browser (widx, wopt) =
     (case week_step wopt (browser widx) of Inr (Some w) \<Rightarrow> [w] | _ \<Rightarrow> [])"
  by (simp add: week_entries_def)

lemma weeks_loop_Inr:
  "weeks_loop browser items acc = Inr ws \<Longrightarrow>
   ws = acc @ concat (map (week_entries browser) items)"
proof (induction items arbitrary: acc)
  case Nil
  then show ?case by simp
next
  case (Cons iw items)
  obtain widx wopt where iw: "iw = (widx, wopt)" by (cases iw)
  show ?case
  proof (cases "week_step wopt (browser widx)")
    case (Inl e)
    with Cons.prems iw show ?thesis by simp
  next
    case (Inr r)
    show ?thesis
    proof (cases r)
      case None
      with Inr Cons.prems iw have "weeks_loop browser items acc = Inr ws" by simp
      from Cons.IH [OF this] Inr None iw show ?thesis
        by (simp add: week_entries_pair)
    next
      case (Some w)
      with Inr Cons.prems iw have "weeks_loop browser items (acc @ [w]) = Inr ws" by simp
      from Cons.IH [OF this] Inr Some iw show ?thesis
        by (simp add: week_entries_pair)
    qed
  qed
qed

lemma weeks_loop_total:
  "\<forall>iw \<in> set items. \<exists>r. week_step (snd iw) (browser (fst iw)) = Inr r \<Longrightarrow>
   \<exists>ws. weeks_loop browser items acc = Inr ws"
proof (induction items arbitrary: acc)
  case Nil
  then show ?case by simp
next
  case (Cons iw items)
  obtain widx wopt where iw: "iw = (widx, wopt)" by (cases iw)
  from Cons.prems iw obtain r where r: "week_step wopt (browser widx) = Inr r" by auto
  from Cons.prems have rest: "\<forall>iw \<in> set items. \<exists>r. week_step (snd iw) (browser (fst iw)) = Inr r"
    by simp
  show ?case
    using Cons.IH [OF rest] r iw by (cases r) auto
qed

lemma length_week_entries: "length (week_entries browser iw) \<le> 1"
  by (simp add: week_entries_def split: sum.splits option.splits)

lemma week_entries_skipped: "skipped (browser (fst iw)) \<Longrightarrow> week_entries browser iw = []"
  by (simp add: week_entries_def week_step_skipped)

lemma length_concat_week_entries:
  "length (concat (map (week_entries browser) items)) \<le>
   length (filter (\<lambda>iw. \<not> skipped (browser (fst iw))) items)"
proof (induction items)
  case Nil
  then show ?case by simp
next
  case (Cons iw items)
  show ?case
  proof (cases "skipped (browser (fst iw))")
    case True
    with Cons show ?thesis by (simp add: week_entries_skipped)
  next
    case False
    with Cons length_week_entries [of browser iw] show ?thesis by simp
  qed
qed


lemma total_weeks_take:
  "int (length week_options) \<le> max_weeks \<Longrightarrow>
   take (total_weeks max_weeks) week_options = week_options"
  by (simp add: total_weeks_def)

text \<open>
  Claim C6. A week that meets a skip condition (the script fails, the dismissed alert
  has a non-empty text, or the grid does not render in time) contributes no entry: the
  list the loop returns is the concatenation, in order, of what the weeks contribute,
  a skipped week contributing nothing, so the list is at most as long as the number
  of weeks that are not skipped. For a week dataset of three entries where the first
  and the third week yield an entry and the second raises an alert with a text, the
  extraction returns exactly these two entries.
\<close>

theorem skipped_weeks_absent:
  "(skipped page \<longrightarrow> week_step wopt page = Inr None)
   \<and> (\<forall>ws. weeks_loop browser items [] = Inr ws \<longrightarrow>
        ws = concat (map (week_entries browser) items)
        \<and> (\<forall>iw \<in> set items. skipped (browser (fst iw)) \<longrightarrow> week_entries browser iw = [])
        \<and> length ws \<le> length (filter (\<lambda>iw. \<not> skipped (browser (fst iw))) items))
   \<and> (\<forall>w1 w2 w3 r1 r3.
        week_options = [w1, w2, w3] \<and> 3 \<le> max_weeks
        \<and> matched_sem sem_id sem_options \<noteq> None
        \<and> week_step w1 (browser 0) = Inr (Some r1)
        \<and> (\<exists>t. alert_text (browser 1) = Some t \<and> t \<noteq> [])
        \<and> week_step w3 (browser 2) = Inr (Some r3) \<longrightarrow>
        (\<exists>resp. extract_semester browser sem_options week_options sem_id max_weeks = Inr resp
           \<and> weeks resp = [r1, r3] \<and> length (weeks resp) = 2))"
proof -
  have a: "skipped page \<longrightarrow> week_step wopt page = Inr None"
    by (simp add: week_step_skipped)
  have b: "ws = concat (map (week_entries browser) items)
        \<and> (\<forall>iw \<in> set items. skipped (browser (fst iw)) \<longrightarrow> week_entries browser iw = [])
        \<and> length ws \<le> length (filter (\<lambda>iw. \<not> skipped (browser (fst iw))) items)"
    if "weeks_loop browser items [] = Inr ws" for ws
  proof -
    from weeks_loop_Inr [OF that] have ws: "ws = concat (map (week_entries browser) items)"
      by simp
    moreover have "\<forall>iw \<in> set items. skipped (browser (fst iw)) \<longrightarrow> week_entries browser iw = []"
      by (simp add: week_entries_skipped)
    moreover have "length ws \<le> length (filter (\<lambda>iw. \<not> skipped (browser (fst iw))) items)"
      unfolding ws by (rule length_concat_week_entries)
    ultimately show ?thesis by blast
  qed
  have c: "\<exists>resp. extract_semester browser sem_options week_options sem_id max_weeks = Inr resp
           \<and> weeks resp = [r1, r3] \<and> length (weeks resp) = 2"
    if h: "week_options = [w1, w2, w3] \<and> 3 \<le> max_weeks
        \<and> matched_sem sem_id sem_options \<noteq> None
        \<and> week_step w1 (browser 0) = Inr (Some r1)
        \<and> (\<exists>t. alert_text (browser 1) = Some t \<and> t \<noteq> [])
        \<and> week_step w3 (browser 2) = Inr (Some r3)"
    for w1 w2 w3 r1 r3
  proof -
    from h have wo: "week_options = [w1, w2, w3]" and mw: "3 \<le> max_weeks"
      and s1: "week_step w1 (browser 0) = Inr (Some r1)"
      and s3: "week_step w3 (browser (Suc (Suc 0))) = Inr (Some r3)"
      by (auto simp: numeral_2_eq_2)
    from h have "skipped (browser (Suc 0))"
      by (auto simp: skipped_def)
    then have s2: "week_step w2 (browser (Suc 0)) = Inr None"
      by (rule week_step_skipped)
    from h obtain sem_value sem_name where m: "matched_sem sem_id sem_options = Some (sem_value, sem_name)"
      by (cases "matched_sem sem_id sem_options") auto
    have t: "take (total_weeks max_weeks) week_options = week_options"
      using mw wo by (intro total_weeks_take) simp
    have "weeks_loop browser (enumerate 0 week_options) [] = Inr [r1, r3]"
      by (simp add: wo s1 s2 s3)
    then show ?thesis
      by (simp add: extract_semester_def m t)
  qed
  from a b c show ?thesis by blast
qed

text \<open>
  The three weeks of \<open>three_weeks\<close>, the second of which raises an alert: the extraction
  for the semester 42 returns two entries, those of the weeks 1 and 3.
\<close>

theorem skipped_weeks_absent_witness:
  "\<exists>resp. extract_semester alert_in_second three_semesters three_weeks (ascii ''42'') 19 = Inr resp
     \<and> length (weeks resp) = 2
     \<and> map week_id (weeks resp) = [PStr (ascii ''1''), PStr (ascii ''3'')]"
proof -
  have fit: "\<forall>cells \<in> set grid_rows. length cells \<le> length grid_header"
    by (simp add: grid_rows_def grid_header_def)
  have "set (drop 1 (map cell_text grid_header))
      \<subseteq> fst ` set (empty_courses (drop 1 (map cell_text grid_header)))"
    by (simp add: keys_empty_courses)
  from add_rows_total [OF fit this] obtain wc where
    wc: "parse_grid grid_header grid_rows = Inr wc"
    by (auto simp: parse_grid_def)
  have ids: "fst (val_name (week_entry i)) = (if i = [] then PStr [] else PStr (ascii i))" for i
    by (simp add: val_name_def week_entry_def opt_get_def py_or_def ascii_def)
  let ?r = "\<lambda>i. \<lparr>week_id = PStr (ascii i), week_name = snd (val_name (week_entry i)), courses = wc\<rparr>"
  have s1: "week_step (week_entry ''1'') (alert_in_second 0) = Inr (Some (?r ''1''))"
    by (simp add: week_step_def alert_in_second_def grid_page_def wc ids)
  have s3: "week_step (week_entry ''3'') (alert_in_second 2) = Inr (Some (?r ''3''))"
    by (simp add: week_step_def alert_in_second_def grid_page_def wc ids)
  have al: "\<exists>t. alert_text (alert_in_second 1) = Some t \<and> t \<noteq> []"
    by (simp add: alert_in_second_def alert_page_def ascii_def)
  have sk: "skipped (alert_in_second 1)"
    using al by (auto simp: skipped_def)
  have m: "matched_sem (ascii ''42'') three_semesters \<noteq> None"
    by (simp add: three_semesters_def sem_entry_def val_name_def opt_get_def py_or_def ascii_def)
  have s2: "week_step (week_entry ''2'') (alert_in_second 1) = Inr None"
    using skipped_weeks_absent [of "alert_in_second 1" "week_entry ''2''", THEN conjunct1] sk
    by blast
  from skipped_weeks_absent [of _ _ alert_in_second _ three_weeks 19 "ascii ''42''" three_semesters,
      THEN conjunct2, THEN conjunct2, rule_format,
      of "week_entry ''1''" "week_entry ''2''" "week_entry ''3''" "?r ''1''" "?r ''3''"]
    s1 s3 al m
  obtain resp where
    "extract_semester alert_in_second three_semesters three_weeks (ascii ''42'') 19 = Inr resp"
    "weeks resp = [?r ''1'', ?r ''3'']" "length (weeks resp) = 2"
    by (auto simp: three_weeks_def)
  then show ?thesis by auto
qed


lemma matched_sem_None:
  "matched_sem sem_id sem_options = None \<longleftrightarrow>
   (\<forall>sem \<in> set sem_options. fst (val_name sem) \<noteq> PStr sem_id)"
  by (induction sem_options) auto

lemma matched_sem_Some:
  "matched_sem sem_id sem_options = Some (v, n) \<Longrightarrow>
   v = PStr sem_id \<and> (\<exists>sem \<in> set sem_options. val_name sem = (v, n))"
  by (induction sem_options) (auto split: if_splits)

lemma week_entries_val_name:
  "w \<in> set (week_entries browser iw) \<Longrightarrow> (week_id w, week_name w) = val_name (snd iw)"
  by (auto simp: week_entries_def week_step_def
      split: sum.splits option.splits if_splits list.splits)

lemma concat_week_entries_prefix:
  "w \<in> set (concat (map (week_entries browser) (enumerate 0 (take n week_options)))) \<Longrightarrow>
   \<exists>i < min n (length week_options). (week_id w, week_name w) = val_name (week_options ! i)"
proof -
  assume "w \<in> set (concat (map (week_entries browser) (enumerate 0 (take n week_options))))"
  then obtain iw where iw: "iw \<in> set (enumerate 0 (take n week_options))"
    and w: "w \<in> set (week_entries browser iw)"
    by auto
  from iw have "fst iw < min n (length week_options)"
    and "snd iw = week_options ! fst iw"
    by (auto simp: in_set_enumerate_eq)
  with week_entries_val_name [OF w] show ?thesis
    by auto
qed

lemma length_concat_week_entries_le:
  "length (concat (map (week_entries browser) items)) \<le> length items"
proof (induction items)
  case Nil
  then show ?case by simp
next
  case (Cons iw items)
  with length_week_entries [of browser iw] show ?case by simp
qed

text \<open>
  Claim C9. The extraction first looks the requested semester identifier up in the
  semester dataset: when no entry has it, the result is the client error 400 whatever
  the weeks are, and nothing is extracted. Otherwise, when the extraction returns, the
  response names the first entry with this identifier, and its weeks are what the
  first \<open>max(1, bound)\<close> entries of the week dataset contribute, in dataset order: the
  result does not depend on later entries, it has at most \<open>max(1, bound)\<close> weeks, and
  every week in it carries the identifier and name of an entry of that prefix. The
  extraction does return when the identifier is known and no week of the prefix raises.
\<close>

theorem semester_validation_and_week_prefix:
  "((\<forall>sem \<in> set sem_options. fst (val_name sem) \<noteq> PStr sem_id) \<longrightarrow>
      extract_semester browser sem_options week_options sem_id max_weeks
        = Inl (HTTPException 400))
   \<and> (\<forall>resp. extract_semester browser sem_options week_options sem_id max_weeks = Inr resp \<longrightarrow>
        (\<exists>sem \<in> set sem_options. fst (val_name sem) = PStr sem_id
            \<and> resp_sem_id resp = PStr sem_id \<and> resp_sem_name resp = snd (val_name sem))
        \<and> weeks resp =
            concat (map (week_entries browser)
                      (enumerate 0 (take (nat (max 1 max_weeks)) week_options)))
        \<and> length (weeks resp) \<le> nat (max 1 max_weeks)
        \<and> (\<forall>w \<in> set (weeks resp).
              \<exists>i < min (nat (max 1 max_weeks)) (length week_options).
                 (week_id w, week_name w) = val_name (week_options ! i)))
   \<and> extract_semester browser sem_options week_options sem_id max_weeks
        = extract_semester browser sem_options
            (take (nat (max 1 max_weeks)) week_options) sem_id max_weeks
   \<and> ((\<exists>sem \<in> set sem_options. fst (val_name sem) = PStr sem_id)
        \<and> (\<forall>i < min (nat (max 1 max_weeks)) (length week_options).
              \<exists>r. week_step (week_options ! i) (browser i) = Inr r) \<longrightarrow>
       (\<exists>resp. extract_semester browser sem_options week_options sem_id max_weeks = Inr resp))"
proof -
  let ?n = "nat (max 1 max_weeks)"
  let ?items = "enumerate 0 (take ?n week_options)"
  have a: "(\<forall>sem \<in> set sem_options. fst (val_name sem) \<noteq> PStr sem_id) \<longrightarrow>
      extract_semester browser sem_options week_options sem_id max_weeks
        = Inl (HTTPException 400)"
  proof
    assume "\<forall>sem \<in> set sem_options. fst (val_name sem) \<noteq> PStr sem_id"
    then have "matched_sem sem_id sem_options = None"
      by (simp add: matched_sem_None)
    then show "extract_semester browser sem_options week_options sem_id max_weeks
        = Inl (HTTPException 400)"
      by (simp add: extract_semester_def)
  qed
  have b: "(\<exists>sem \<in> set sem_options. fst (val_name sem) = PStr sem_id
            \<and> resp_sem_id resp = PStr sem_id \<and> resp_sem_name resp = snd (val_name sem))
        \<and> weeks resp = concat (map (week_entries browser) ?items)
        \<and> length (weeks resp) \<le> ?n
        \<and> (\<forall>w \<in> set (weeks resp).
              \<exists>i < min ?n (length week_options).
                 (week_id w, week_name w) = val_name (week_options ! i))"
    if r: "extract_semester browser sem_options week_options sem_id max_weeks = Inr resp"
    for resp
  proof -
    from r obtain v n where m: "matched_sem sem_id sem_options = Some (v, n)"
      by (cases "matched_sem sem_id sem_options") (auto simp: extract_semester_def)
    from r m obtain ws where loop: "weeks_loop browser ?items [] = Inr ws"
      and resp: "resp = \<lparr>resp_sem_id = v, resp_sem_name = n, weeks = ws\<rparr>"
      by (auto simp: extract_semester_def total_weeks_def split: sum.splits)
    from matched_sem_Some [OF m] obtain sem where
      "v = PStr sem_id" "sem \<in> set sem_options" "val_name sem = (v, n)"
      by blast
    then have p1: "\<exists>sem \<in> set sem_options. fst (val_name sem) = PStr sem_id
            \<and> resp_sem_id resp = PStr sem_id \<and> resp_sem_name resp = snd (val_name sem)"
      using resp by force
    from weeks_loop_Inr [OF loop] resp
    have p2: "weeks resp = concat (map (week_entries browser) ?items)"
      by simp
    have "length (weeks resp) \<le> length ?items"
      unfolding p2 by (rule length_concat_week_entries_le)
    then have p3: "length (weeks resp) \<le> ?n"
      by simp
    have p4: "\<forall>w \<in> set (weeks resp).
              \<exists>i < min ?n (length week_options).
                 (week_id w, week_name w) = val_name (week_options ! i)"
      unfolding p2 using concat_week_entries_prefix by blast
    from p1 p2 p3 p4 show ?thesis by blast
  qed
  have c: "extract_semester browser sem_options week_options sem_id max_weeks
        = extract_semester browser sem_options (take ?n week_options) sem_id max_weeks"
  proof -
    have "take (total_weeks max_weeks) (take ?n week_options) =
        take (total_weeks max_weeks) week_options"
      by (simp add: total_weeks_def)
    then show ?thesis
      by (cases "matched_sem sem_id sem_options") (simp_all add: extract_semester_def)
  qed
  have d: "(\<exists>sem \<in> set sem_options. fst (val_name sem) = PStr sem_id)
        \<and> (\<forall>i < min ?n (length week_options).
              \<exists>r. week_step (week_options ! i) (browser i) = Inr r) \<longrightarrow>
       (\<exists>resp. extract_semester browser sem_options week_options sem_id max_weeks = Inr resp)"
  proof
    assume h: "(\<exists>sem \<in> set sem_options. fst (val_name sem) = PStr sem_id)
        \<and> (\<forall>i < min ?n (length week_options).
              \<exists>r. week_step (week_options ! i) (browser i) = Inr r)"
    then have "matched_sem sem_id sem_options \<noteq> None"
      by (simp add: matched_sem_None)
    then obtain v n where m: "matched_sem sem_id sem_options = Some (v, n)"
      by (cases "matched_sem sem_id sem_options") auto
    from h have "\<forall>iw \<in> set ?items. \<exists>r. week_step (snd iw) (browser (fst iw)) = Inr r"
      by (auto simp: in_set_enumerate_eq)
    from weeks_loop_total [OF this, of "[]"] obtain ws where
      "weeks_loop browser ?items [] = Inr ws" by blast
    with m show "\<exists>resp. extract_semester browser sem_options week_options sem_id max_weeks = Inr resp"
      by (simp add: extract_semester_def total_weeks_def)
  qed
  from a b c d show ?thesis by blast
qed

text \<open>
  With the dataset \<open>three_semesters\<close>: the identifier 99 is unknown and gives the error
  400; the identifier 42 with the bound 2 gives the weeks of the first two entries
  only, of which the second is skipped, and the bound 0 counts as 1.
\<close>

theorem semester_validation_and_week_prefix_witness:
  "extract_semester alert_in_second three_semesters three_weeks (ascii ''99'') 19
     = Inl (HTTPException 400)
   \<and> (\<exists>resp. extract_semester alert_in_second three_semesters three_weeks (ascii ''42'') 2
          = Inr resp
        \<and> length (weeks resp) \<le> 2
        \<and> resp_sem_id resp = PStr (ascii ''42''))
   \<and> (\<exists>resp. extract_semester alert_in_second three_semesters three_weeks (ascii ''42'') 0
          = Inr resp
        \<and> length (weeks resp) \<le> 1)"
proof -
  have fit: "\<forall>cells \<in> set grid_rows. length cells \<le> length grid_header"
    by (simp add: grid_rows_def grid_header_def)
  have "set (drop 1 (map cell_text grid_header))
      \<subseteq> fst ` set (empty_courses (drop 1 (map cell_text grid_header)))"
    by (simp add: keys_empty_courses)
  from add_rows_total [OF fit this] obtain wc where
    wc: "parse_grid grid_header grid_rows = Inr wc"
    by (auto simp: parse_grid_def)
  have steps: "\<exists>r. week_step wopt (alert_in_second i) = Inr r" for wopt i
    by (simp add: week_step_def alert_in_second_def grid_page_def alert_page_def wc ascii_def)
  have ids: "fst (val_name (sem_entry i nm)) = (if i = [] then PStr [] else PStr (ascii i))"
    for i nm
    by (simp add: val_name_def sem_entry_def opt_get_def py_or_def ascii_def)
  have unknown: "\<forall>sem \<in> set three_semesters. fst (val_name sem) \<noteq> PStr (ascii ''99'')"
    by (simp add: three_semesters_def ids ascii_def)
  have known: "\<exists>sem \<in> set three_semesters. fst (val_name sem) = PStr (ascii ''42'')"
    by (simp add: three_semesters_def ids)
  have a: "extract_semester alert_in_second three_semesters three_weeks (ascii ''99'') 19
     = Inl (HTTPException 400)"
    using semester_validation_and_week_prefix
      [of three_semesters "ascii ''99''" alert_in_second three_weeks 19, THEN conjunct1]
      unknown
    by blast
  have b: "\<exists>resp. extract_semester alert_in_second three_semesters three_weeks (ascii ''42'') mw
          = Inr resp
        \<and> length (weeks resp) \<le> nat (max 1 mw)
        \<and> resp_sem_id resp = PStr (ascii ''42'')" for mw
  proof -
    note t = semester_validation_and_week_prefix
      [of three_semesters "ascii ''42''" alert_in_second three_weeks mw]
    from t [THEN conjunct2, THEN conjunct2, THEN conjunct2] known steps
    obtain resp where
      r: "extract_semester alert_in_second three_semesters three_weeks (ascii ''42'') mw = Inr resp"
      by blast
    from t [THEN conjunct2, THEN conjunct1, rule_format, OF r] r show ?thesis
      by blast
  qed
  from a b [of 2] b [of 0] show ?thesis
    by auto
qed

subsection \<open>The invariant of the pool and the registry\<close>

lemma quit_fields:
  "driver_pool (quit d g) = driver_pool g" "drivers (quit d g) = drivers g"
  "driver_expiry (quit d g) = driver_expiry g"
  "driver_usage_count (quit d g) = driver_usage_count g"
  "launched (quit d g) = launched g" "quit_calls (quit d g) = quit_calls g @ [d]"
  by (simp_all add: quit_def)

lemma refresh_fields:
  "driver_pool (refresh sid now g) = driver_pool g" "drivers (refresh sid now g) = drivers g"
  "driver_usage_count (refresh sid now g) = driver_usage_count g"
  "launched (refresh sid now g) = launched g" "quit_calls (refresh sid now g) = quit_calls g"
  "driver_expiry (refresh sid now g) = AList.update sid now (driver_expiry g)"
  by (simp_all add: refresh_def)

lemma refresh_finally_fields:
  "driver_pool (refresh_finally sid now g) = driver_pool g"
  "drivers (refresh_finally sid now g) = drivers g"
  "driver_usage_count (refresh_finally sid now g) = driver_usage_count g"
  "launched (refresh_finally sid now g) = launched g"
  "quit_calls (refresh_finally sid now g) = quit_calls g"
  by (simp_all add: refresh_finally_def refresh_fields)

lemma pool_inv_cong:
  "pool_inv g \<Longrightarrow> driver_pool g' = driver_pool g \<Longrightarrow> drivers g' = drivers g \<Longrightarrow>
   driver_expiry g' = driver_expiry g \<Longrightarrow> launched g \<le> launched g' \<Longrightarrow>
   pool_inv g'"
  unfolding pool_inv_def by (auto intro: less_le_trans)

lemma separated_mono:
  "separated g \<Longrightarrow> set (driver_pool g') \<subseteq> set (driver_pool g) \<Longrightarrow>
   snd ` set (drivers g') \<subseteq> snd ` set (drivers g) \<Longrightarrow> separated g'"
  unfolding separated_def by blast

lemma webdriver_Chrome_frame:
  "webdriver_Chrome chrome g = (r, g1) \<Longrightarrow>
   g1 = g\<lparr>launched := Suc (launched g)\<rparr> \<and> (\<forall>d. r = Inr d \<longrightarrow> d = launched g)"
  by (auto simp: webdriver_Chrome_def split: launch.splits)

lemma create_driver_frame:
  assumes "create_driver chrome g = (r, g1)"
  shows "\<exists>n. g1 = g\<lparr>launched := n\<rparr> \<and> launched g < n
           \<and> (\<forall>d. r = Inr d \<longrightarrow> launched g \<le> d \<and> d < n)"
proof (cases "webdriver_Chrome chrome g")
  case (Pair r0 g0)
  note w0 = webdriver_Chrome_frame [OF Pair]
  show ?thesis
  proof (cases "r0 = Inl SessionNotCreatedException")
    case True
    with Pair assms have second: "webdriver_Chrome chrome g0 = (r, g1)"
      by (simp add: create_driver_def)
    from webdriver_Chrome_frame [OF second] w0
    have "g1 = g\<lparr>launched := Suc (Suc (launched g))\<rparr>"
      and "\<forall>d. r = Inr d \<longrightarrow> d = Suc (launched g)"
      by auto
    then show ?thesis
      by (intro exI [of _ "Suc (Suc (launched g))"]) auto
  next
    case False
    with Pair assms have "r = r0" "g1 = g0"
      by (auto simp: create_driver_def split: sum.splits exn.splits)
    with w0 show ?thesis
      by (intro exI [of _ "Suc (launched g)"]) auto
  qed
qed

lemma create_driver_fields:
  assumes "create_driver chrome g = (r, g1)"
  shows "driver_pool g1 = driver_pool g" "drivers g1 = drivers g"
    "driver_expiry g1 = driver_expiry g" "driver_usage_count g1 = driver_usage_count g"
    "quit_calls g1 = quit_calls g" "launched g < launched g1"
  using create_driver_frame [OF assms] by auto

lemma create_driver_new:
  assumes "create_driver chrome g = (Inr d, g1)"
  shows "launched g \<le> d" "d < launched g1"
  using create_driver_frame [OF assms] by auto

lemma create_driver_inv:
  assumes "create_driver chrome g = (r, g1)" "pool_inv g"
  shows "pool_inv g1"
  using assms(2) create_driver_fields [OF assms(1)]
  by (intro pool_inv_cong [of g g1]) simp_all

lemma create_driver_fresh:
  assumes "create_driver chrome g = (Inr d, g1)" "pool_inv g"
  shows "d \<notin> set (driver_pool g1)" "d \<notin> snd ` set (drivers g1)"
proof -
  note f = create_driver_fields [OF assms(1)] and n = create_driver_new [OF assms(1)]
  from assms(2) have
    "\<forall>x \<in> set (driver_pool g). x < launched g"
    "\<forall>x \<in> snd ` set (drivers g). x < launched g"
    by (auto simp: pool_inv_def)
  with n(1) show "d \<notin> set (driver_pool g1)" "d \<notin> snd ` set (drivers g1)"
    unfolding f by (metis leD)+
qed

lemma take_driver_Inr:
  assumes "take_driver chrome g = (Inr d, g1)" "pool_inv g"
  shows "pool_inv g1" "d \<notin> set (driver_pool g1)"
    "separated g \<longrightarrow> d \<notin> snd ` set (drivers g1)"
    "d < launched g1" "drivers g1 = drivers g" "driver_expiry g1 = driver_expiry g"
    "driver_usage_count g1 = driver_usage_count g" "quit_calls g1 = quit_calls g"
    "length (driver_pool g1) < POOL_SIZE"
    "driver_pool g = d # driver_pool g1
     \<or> driver_pool g = [] \<and> driver_pool g1 = [] \<and> launched g \<le> d"
    "set (driver_pool g1) \<subseteq> set (driver_pool g)"
proof -
  have "pool_inv g1 \<and> d \<notin> set (driver_pool g1)
    \<and> (separated g \<longrightarrow> d \<notin> snd ` set (drivers g1))
    \<and> d < launched g1 \<and> drivers g1 = drivers g \<and> driver_expiry g1 = driver_expiry g
    \<and> driver_usage_count g1 = driver_usage_count g \<and> quit_calls g1 = quit_calls g
    \<and> length (driver_pool g1) < POOL_SIZE
    \<and> (driver_pool g = d # driver_pool g1
         \<or> driver_pool g = [] \<and> driver_pool g1 = [] \<and> launched g \<le> d)
    \<and> set (driver_pool g1) \<subseteq> set (driver_pool g)"
  proof (cases "driver_pool g")
    case Nil
    with assms(1) have c: "create_driver chrome g = (Inr d, g1)"
      by (auto simp: take_driver_def split: prod.splits sum.splits)
    from create_driver_inv [OF c assms(2)] create_driver_fresh [OF c assms(2)]
      create_driver_fields [OF c] create_driver_new [OF c] Nil
    show ?thesis
      by (simp add: POOL_SIZE_def)
  next
    case (Cons d0 rest)
    with assms(1) have e: "d = d0" "g1 = g\<lparr>driver_pool := rest\<rparr>"
      by (auto simp: take_driver_def)
    from assms(2) Cons show ?thesis
      unfolding e pool_inv_def separated_def by auto
  qed
  then show "pool_inv g1" "d \<notin> set (driver_pool g1)"
    "separated g \<longrightarrow> d \<notin> snd ` set (drivers g1)"
    "d < launched g1" "drivers g1 = drivers g" "driver_expiry g1 = driver_expiry g"
    "driver_usage_count g1 = driver_usage_count g" "quit_calls g1 = quit_calls g"
    "length (driver_pool g1) < POOL_SIZE"
    "driver_pool g = d # driver_pool g1
     \<or> driver_pool g = [] \<and> driver_pool g1 = [] \<and> launched g \<le> d"
    "set (driver_pool g1) \<subseteq> set (driver_pool g)"
    by blast+
qed

lemma take_driver_Inl:
  assumes "take_driver chrome g = (Inl e, g1)"
  shows "driver_pool g = []" "e = HTTPException 503"
    "\<exists>e'. create_driver chrome g = (Inl e', g1)"
  using assms
  by (auto simp: take_driver_def split: list.splits prod.splits sum.splits)


lemma pool_inv_quit: "pool_inv (quit d g) = pool_inv g"
  by (simp add: pool_inv_def quit_fields)

lemma pool_inv_usage_update:
  "pool_inv g \<Longrightarrow>
   pool_inv (g\<lparr>driver_usage_count := AList.update k v (driver_usage_count g)\<rparr>)"
  by (simp add: pool_inv_def)

lemma get_driver_Inr:
  assumes "get_driver chrome g = (Inr d, g1)" "pool_inv g"
  shows "pool_inv g1" "d \<notin> set (driver_pool g1)"
    "separated g \<longrightarrow> d \<notin> snd ` set (drivers g1)"
    "d < launched g1" "drivers g1 = drivers g" "driver_expiry g1 = driver_expiry g"
    "length (driver_pool g1) < POOL_SIZE"
    "set (driver_pool g1) \<subseteq> set (driver_pool g)"
proof -
  obtain r0 g0 where t: "take_driver chrome g = (r0, g0)"
    by (cases "take_driver chrome g")
  with assms(1) obtain d0 where r0: "r0 = Inr d0"
    by (cases r0) (auto simp: get_driver_def)
  note t0 = take_driver_Inr [OF t [unfolded r0] assms(2)]
  have "pool_inv g1 \<and> d \<notin> set (driver_pool g1)
    \<and> (separated g \<longrightarrow> d \<notin> snd ` set (drivers g1))
    \<and> d < launched g1 \<and> drivers g1 = drivers g \<and> driver_expiry g1 = driver_expiry g
    \<and> length (driver_pool g1) < POOL_SIZE
    \<and> set (driver_pool g1) \<subseteq> set (driver_pool g)"
  proof (cases "MAX_USAGE_PER_DRIVER \<le> usage_count g0 (py_id chrome d0)")
    case False
    with assms(1) t r0 have "d = d0" "g1 = g0"
      by (auto simp: get_driver_def)
    with t0 show ?thesis
      by simp
  next
    case True
    with assms(1) t r0 obtain g2 where
      c: "create_driver chrome (quit d0 g0) = (Inr d, g2)"
      and g1: "g1 = g2\<lparr>driver_usage_count :=
                         AList.update (py_id chrome d0) 0 (driver_usage_count g2)\<rparr>"
      by (auto simp: get_driver_def split: prod.splits sum.splits)
    have q: "pool_inv (quit d0 g0)"
      using t0(1) by (simp add: pool_inv_quit)
    note f = create_driver_fields [OF c, unfolded quit_fields]
      and fr = create_driver_fresh [OF c q]
      and n = create_driver_new [OF c, unfolded quit_fields]
    have i: "pool_inv g1"
      unfolding g1 using create_driver_inv [OF c q] by (rule pool_inv_usage_update)
    from i fr n f t0 show ?thesis
      by (simp add: g1)
  qed
  then show "pool_inv g1" "d \<notin> set (driver_pool g1)"
    "separated g \<longrightarrow> d \<notin> snd ` set (drivers g1)"
    "d < launched g1" "drivers g1 = drivers g" "driver_expiry g1 = driver_expiry g"
    "length (driver_pool g1) < POOL_SIZE"
    "set (driver_pool g1) \<subseteq> set (driver_pool g)"
    by blast+
qed

lemma get_driver_Inl:
  assumes "get_driver chrome g = (Inl e, g1)" "pool_inv g"
  shows "pool_inv g1" "drivers g1 = drivers g" "driver_expiry g1 = driver_expiry g"
    "set (driver_pool g1) \<subseteq> set (driver_pool g)"
proof -
  obtain r0 g0 where t: "take_driver chrome g = (r0, g0)"
    by (cases "take_driver chrome g")
  have "pool_inv g1 \<and> drivers g1 = drivers g \<and> driver_expiry g1 = driver_expiry g
    \<and> set (driver_pool g1) \<subseteq> set (driver_pool g)"
  proof (cases r0)
    case (Inl e0)
    with assms(1) t have "g1 = g0"
      by (simp add: get_driver_def)
    moreover from take_driver_Inl(3) [OF t [unfolded Inl]] obtain e' where
      c: "create_driver chrome g = (Inl e', g0)" by blast
    ultimately show ?thesis
      using create_driver_inv [OF c assms(2)] create_driver_fields [OF c] by simp
  next
    case (Inr d0)
    note t0 = take_driver_Inr [OF t [unfolded Inr] assms(2)]
    from assms(1) t Inr have
      c: "create_driver chrome (quit d0 g0) = (Inl e, g1)"
      by (auto simp: get_driver_def split: prod.splits sum.splits if_splits)
    have q: "pool_inv (quit d0 g0)"
      using t0(1) by (simp add: pool_inv_quit)
    from create_driver_inv [OF c q] create_driver_fields [OF c, unfolded quit_fields] t0
    show ?thesis by simp
  qed
  then show "pool_inv g1" "drivers g1 = drivers g" "driver_expiry g1 = driver_expiry g"
    "set (driver_pool g1) \<subseteq> set (driver_pool g)"
    by blast+
qed

lemma put_Some:
  "length (driver_pool g) < POOL_SIZE \<Longrightarrow> put d g = Some (g\<lparr>driver_pool := driver_pool g @ [d]\<rparr>)"
  by (simp add: put_def)

lemma pool_inv_put:
  "pool_inv g \<Longrightarrow> length (driver_pool g) < POOL_SIZE \<Longrightarrow> d \<notin> set (driver_pool g) \<Longrightarrow>
   d < launched g \<Longrightarrow>
   pool_inv (g\<lparr>driver_pool := driver_pool g @ [d]\<rparr>)"
  by (auto simp: pool_inv_def)

lemma separated_put:
  "separated g \<Longrightarrow> d \<notin> snd ` set (drivers g) \<Longrightarrow>
   separated (g\<lparr>driver_pool := driver_pool g @ [d]\<rparr>)"
  by (auto simp: separated_def)

lemma release_driver_inv:
  assumes "pool_inv g" "length (driver_pool g) < POOL_SIZE" "d \<notin> set (driver_pool g)"
    "d < launched g"
  shows "\<exists>g'. release_driver chrome cleared d g = Some g' \<and> pool_inv g'
           \<and> drivers g' = drivers g \<and> driver_expiry g' = driver_expiry g
           \<and> (separated g \<and> d \<notin> snd ` set (drivers g) \<longrightarrow> separated g')"
proof (cases cleared)
  case True
  let ?g = "g\<lparr>driver_usage_count :=
               AList.update (py_id chrome d) (usage_count g (py_id chrome d) + 1)
                 (driver_usage_count g)\<rparr>"
  have i: "pool_inv ?g"
    using assms(1) by (rule pool_inv_usage_update)
  have "release_driver chrome cleared d g = put d ?g"
    using True by (simp add: release_driver_def)
  also have "\<dots> = Some (?g\<lparr>driver_pool := driver_pool ?g @ [d]\<rparr>)"
    using assms(2) by (intro put_Some) simp
  finally have r: "release_driver chrome cleared d g = Some (?g\<lparr>driver_pool := driver_pool ?g @ [d]\<rparr>)" .
  have "pool_inv (?g\<lparr>driver_pool := driver_pool ?g @ [d]\<rparr>)"
    using i assms by (intro pool_inv_put) simp_all
  moreover have "separated (?g\<lparr>driver_pool := driver_pool ?g @ [d]\<rparr>)"
    if "separated g \<and> d \<notin> snd ` set (drivers g)"
    using that by (simp add: separated_def)
  ultimately show ?thesis
    using r by simp
next
  case False
  obtain r1 g1 where c: "create_driver chrome (quit d g) = (r1, g1)"
    by (cases "create_driver chrome (quit d g)")
  have q: "pool_inv (quit d g)"
    using assms(1) by (simp add: pool_inv_quit)
  note i1 = create_driver_inv [OF c q] and f = create_driver_fields [OF c, unfolded quit_fields]
  have s1: "separated g \<longrightarrow> separated g1"
    using f by (simp add: separated_def)
  show ?thesis
  proof (cases r1)
    case (Inl e)
    with c False have "release_driver chrome cleared d g = Some g1"
      by (simp add: release_driver_def)
    with i1 f s1 show ?thesis by simp
  next
    case (Inr d')
    note fr = create_driver_fresh [OF c [unfolded Inr] q]
      and n = create_driver_new [OF c [unfolded Inr]]
    have "release_driver chrome cleared d g = put d' g1"
      using c False Inr by (simp add: release_driver_def)
    also have "\<dots> = Some (g1\<lparr>driver_pool := driver_pool g1 @ [d']\<rparr>)"
      using assms(2) f by (intro put_Some) simp
    finally have r: "release_driver chrome cleared d g = Some (g1\<lparr>driver_pool := driver_pool g1 @ [d']\<rparr>)" .
    have "pool_inv (g1\<lparr>driver_pool := driver_pool g1 @ [d']\<rparr>)"
      using i1 assms(2) f fr n by (intro pool_inv_put) simp_all
    moreover have "separated g \<longrightarrow> separated (g1\<lparr>driver_pool := driver_pool g1 @ [d']\<rparr>)"
      using s1 fr(2) by (simp add: separated_put)
    ultimately show ?thesis
      using r f by simp
  qed
qed

lemma snd_set_update: "snd ` set (AList.update k v al) \<subseteq> insert v (snd ` set al)"
  by (induction al) auto

lemma pool_inv_bind:
  assumes "pool_inv g" "d < launched g"
  shows "pool_inv (g\<lparr>drivers := AList.update sid d (drivers g),
                      driver_expiry := AList.update sid now (driver_expiry g)\<rparr>)"
proof -
  have sub: "snd ` set (AList.update sid d (drivers g)) \<subseteq> insert d (snd ` set (drivers g))"
    by (rule snd_set_update)
  from assms have inv: "distinct (driver_pool g)" "length (driver_pool g) \<le> POOL_SIZE"
    "\<forall>d \<in> set (driver_pool g). d < launched g"
    "\<forall>d \<in> snd ` set (drivers g). d < launched g"
    "distinct (map fst (drivers g))" "distinct (map fst (driver_expiry g))"
    by (simp_all add: pool_inv_def)
  have b: "\<forall>x \<in> snd ` set (AList.update sid d (drivers g)). x < launched g"
    using sub inv(4) assms(2) by blast
  from inv b show ?thesis
    unfolding pool_inv_def by (simp add: distinct_update)
qed

lemma separated_bind:
  assumes "separated g" "d \<notin> set (driver_pool g)"
  shows "separated (g\<lparr>drivers := AList.update sid d (drivers g),
                       driver_expiry := AList.update sid now (driver_expiry g)\<rparr>)"
proof -
  have sub: "snd ` set (AList.update sid d (drivers g)) \<subseteq> insert d (snd ` set (drivers g))"
    by (rule snd_set_update)
  from assms have "set (driver_pool g) \<inter> insert d (snd ` set (drivers g)) = {}"
    by (simp add: separated_def)
  with sub have "set (driver_pool g) \<inter> snd ` set (AList.update sid d (drivers g)) = {}"
    by blast
  then show ?thesis
    by (simp add: separated_def)
qed

lemma pool_inv_refresh: "pool_inv g \<Longrightarrow> pool_inv (refresh sid now g)"
  by (auto simp: pool_inv_def refresh_def distinct_update)

lemma pool_inv_refresh_finally: "pool_inv g \<Longrightarrow> pool_inv (refresh_finally sid now g)"
  by (simp add: refresh_finally_def pool_inv_refresh)

text \<open>
  What a captcha request does to the state, with the driver \<open>d\<close> that get_driver gave
  it: it binds \<open>d\<close>, or releases \<open>d\<close>, or binds \<open>d\<close> and releases it all the same.
\<close>

lemma get_captcha_cases:
  assumes "get_captcha chrome memory page announced cleared sid now g = Some (r, g')"
  obtains (busy) "memory > 500" "g' = g" "r = Inl (HTTPException 503)"
  | (no_driver) e where "\<not> memory > 500" "get_driver chrome g = (Inl e, g')" "r = Inl e"
  | (bound) d g1 src where "\<not> memory > 500" "get_driver chrome g = (Inr d, g1)"
      "announced" "r = Inr (sid, src)"
      "g' = g1\<lparr>drivers := AList.update sid d (drivers g1),
                driver_expiry := AList.update sid now (driver_expiry g1)\<rparr>"
  | (bound_released) d g1 where "\<not> memory > 500" "get_driver chrome g = (Inr d, g1)"
      "\<not> announced" "r = Inl (HTTPException 500)"
      "release_driver chrome cleared d
         (g1\<lparr>drivers := AList.update sid d (drivers g1),
             driver_expiry := AList.update sid now (driver_expiry g1)\<rparr>) = Some g'"
  | (released) d g1 where "\<not> memory > 500" "get_driver chrome g = (Inr d, g1)"
      "r = Inl (HTTPException 500)" "release_driver chrome cleared d g1 = Some g'"
proof (cases "memory > 500")
  case True
  with assms have "g' = g" "r = Inl (HTTPException 503)"
    by (simp_all add: get_captcha_def)
  with True show ?thesis by (rule busy)
next
  case False
  obtain r1 g1 where gd: "get_driver chrome g = (r1, g1)"
    by (cases "get_driver chrome g")
  show ?thesis
  proof (cases r1)
    case (Inl e)
    with assms False gd have "g' = g1" "r = Inl e"
      by (simp_all add: get_captcha_def)
    with False gd Inl show ?thesis by (intro no_driver [of e]) simp_all
  next
    case (Inr d)
    show ?thesis
    proof (cases "\<exists>src. page = CaptchaSrc (Some src) \<and> is_data_image (Some src)")
      case True
      then obtain src where p: "page = CaptchaSrc (Some src)" "is_data_image (Some src)"
        by blast
      show ?thesis
      proof (cases announced)
        case True
        with assms False gd Inr p have "r = Inr (sid, src)"
          "g' = g1\<lparr>drivers := AList.update sid d (drivers g1),
                    driver_expiry := AList.update sid now (driver_expiry g1)\<rparr>"
          by (simp_all add: get_captcha_def)
        with False gd Inr True show ?thesis by (intro bound [of d g1 src]) simp_all
      next
        case na: False
        with assms False gd Inr p have "r = Inl (HTTPException 500)"
          "release_driver chrome cleared d
             (g1\<lparr>drivers := AList.update sid d (drivers g1),
                 driver_expiry := AList.update sid now (driver_expiry g1)\<rparr>) = Some g'"
          by (auto simp: get_captcha_def split: option.splits)
        with False gd Inr na show ?thesis by (intro bound_released [of d g1]) simp_all
      qed
    next
      case no: False
      with assms False gd Inr have "r = Inl (HTTPException 500)"
        "release_driver chrome cleared d g1 = Some g'"
        by (auto simp: get_captcha_def split: captcha_page.splits option.splits if_splits)
      with False gd Inr show ?thesis by (intro released [of d g1]) simp_all
    qed
  qed
qed

lemma get_captcha_inv:
  assumes "get_captcha chrome memory page announced cleared sid now g = Some (r, g')"
    "pool_inv g"
  shows "pool_inv g'"
  using assms(1)
proof (cases rule: get_captcha_cases)
  case busy
  with assms(2) show ?thesis by simp
next
  case (no_driver e)
  from get_driver_Inl(1) [OF no_driver(2) assms(2)] show ?thesis .
next
  case (bound d g1 src)
  note gi = get_driver_Inr [OF bound(2) assms(2)]
  from pool_inv_bind [OF gi(1,4)] bound(5) show ?thesis by simp
next
  case (bound_released d g1)
  note gi = get_driver_Inr [OF bound_released(2) assms(2)]
  let ?g = "g1\<lparr>drivers := AList.update sid d (drivers g1),
               driver_expiry := AList.update sid now (driver_expiry g1)\<rparr>"
  have "pool_inv ?g"
    by (rule pool_inv_bind [OF gi(1,4)])
  moreover have "length (driver_pool ?g) < POOL_SIZE" "d \<notin> set (driver_pool ?g)"
    "d < launched ?g"
    using gi by simp_all
  ultimately obtain g2 where "release_driver chrome cleared d ?g = Some g2" "pool_inv g2"
    using release_driver_inv [of ?g d chrome cleared] by blast
  with bound_released(5) show ?thesis by simp
next
  case (released d g1)
  note gi = get_driver_Inr [OF released(2) assms(2)]
  from release_driver_inv [OF gi(1) gi(7) gi(2) gi(4), of chrome cleared] released(4)
  show ?thesis by auto
qed

lemma get_captcha_separated:
  assumes "get_captcha chrome memory page True cleared sid now g = Some (r, g')"
    "pool_inv g" "separated g"
  shows "separated g'"
  using assms(1)
proof (cases rule: get_captcha_cases)
  case busy
  with assms(3) show ?thesis by simp
next
  case (no_driver e)
  note gi = get_driver_Inl [OF no_driver(2) assms(2)]
  from assms(3) gi(4) show ?thesis
    by (rule separated_mono) (simp add: gi(2))
next
  case (bound d g1 src)
  note gi = get_driver_Inr [OF bound(2) assms(2)]
  have "separated g1"
    using assms(3) gi(8) by (rule separated_mono) (simp add: gi(5))
  from separated_bind [OF this gi(2)] bound(5) show ?thesis by simp
next
  case (bound_released d g1)
  then show ?thesis by simp
next
  case (released d g1)
  note gi = get_driver_Inr [OF released(2) assms(2)]
  have s1: "separated g1"
    using assms(3) gi(8) by (rule separated_mono) (simp add: gi(5))
  from gi(3) assms(3) have "d \<notin> snd ` set (drivers g1)"
    by simp
  with release_driver_inv [OF gi(1) gi(7) gi(2) gi(4), of chrome cleared] released(4) s1
  show ?thesis by auto
qed

lemma get_captcha_returns:
  assumes "pool_inv g"
  shows "\<exists>r g'. get_captcha chrome memory page announced cleared sid now g = Some (r, g')"
proof (cases "memory > 500")
  case True
  then show ?thesis by (simp add: get_captcha_def)
next
  case False
  obtain r1 g1 where gd: "get_driver chrome g = (r1, g1)"
    by (cases "get_driver chrome g")
  show ?thesis
  proof (cases r1)
    case (Inl e)
    with False gd show ?thesis by (simp add: get_captcha_def)
  next
    case (Inr d)
    note gi = get_driver_Inr [OF gd [unfolded Inr] assms]
    let ?g = "g1\<lparr>drivers := AList.update sid d (drivers g1),
                 driver_expiry := AList.update sid now (driver_expiry g1)\<rparr>"
    from release_driver_inv [OF gi(1) gi(7) gi(2) gi(4), of chrome cleared]
    obtain g2 where rel: "release_driver chrome cleared d g1 = Some g2"
      by blast
    have "pool_inv ?g"
      by (rule pool_inv_bind [OF gi(1,4)])
    moreover have "length (driver_pool ?g) < POOL_SIZE" "d \<notin> set (driver_pool ?g)"
      "d < launched ?g"
      using gi by simp_all
    ultimately obtain g3 where rel': "release_driver chrome cleared d ?g = Some g3"
      using release_driver_inv [of ?g d chrome cleared] by blast
    from False gd Inr rel rel' show ?thesis
      by (auto simp: get_captcha_def split: captcha_page.splits option.splits)
  qed
qed

lemma expire_loop_eq:
  "expire_loop threshold current_time items g acc =
     (g\<lparr>quit_calls := quit_calls g @
          List.map_filter (map_of (drivers g))
            (map fst (filter (\<lambda>(sid, t). current_time - t > threshold) items))\<rparr>,
      acc @ map fst (filter (\<lambda>(sid, t). current_time - t > threshold) items))"
proof (induction items arbitrary: g acc)
  case Nil
  then show ?case by simp
next
  case (Cons item items)
  obtain sid t where item: "item = (sid, t)" by (cases item)
  show ?case
  proof (cases "current_time - t > threshold")
    case False
    with Cons item show ?thesis by simp
  next
    case True
    show ?thesis
    proof (cases "map_of (drivers g) sid")
      case None
      with Cons True item show ?thesis by simp
    next
      case (Some d)
      with Cons True item show ?thesis by (simp add: quit_def)
    qed
  qed
qed

lemma filter_delete:
  "filter (\<lambda>(k, v). k \<notin> set sids) (AList.delete sid al)
     = filter (\<lambda>(k, v). k \<noteq> sid \<and> k \<notin> set sids) al"
  by (induction al) (auto simp: AList.delete_eq)

lemma pop_sessions_eq:
  "pop_sessions sids g =
     g\<lparr>drivers := filter (\<lambda>(k, v). k \<notin> set sids) (drivers g),
       driver_expiry := filter (\<lambda>(k, v). k \<notin> set sids) (driver_expiry g)\<rparr>"
proof (induction sids arbitrary: g)
  case Nil
  then show ?case by simp
next
  case (Cons sid sids)
  from Cons show ?case by (simp add: filter_delete)
qed

lemma sweep_eq:
  "sweep threshold current_time g =
     (let sids = map fst (filter (\<lambda>(sid, t). current_time - t > threshold) (driver_expiry g))
      in g\<lparr>quit_calls := quit_calls g @ List.map_filter (map_of (drivers g)) sids,
           drivers := filter (\<lambda>(k, v). k \<notin> set sids) (drivers g),
           driver_expiry := filter (\<lambda>(k, v). k \<notin> set sids) (driver_expiry g)\<rparr>)"
  by (simp add: sweep_def expire_loop_eq pop_sessions_eq Let_def)

lemma sweep_fields:
  "driver_pool (sweep threshold current_time g) = driver_pool g"
  "driver_usage_count (sweep threshold current_time g) = driver_usage_count g"
  "launched (sweep threshold current_time g) = launched g"
  by (simp_all add: sweep_eq Let_def)

lemma pool_inv_sweep:
  assumes "pool_inv g"
  shows "pool_inv (sweep threshold current_time g)"
proof -
  have sub: "snd ` set (filter P (drivers g)) \<subseteq> snd ` set (drivers g)" for P
    by auto
  from assms have inv: "distinct (driver_pool g)" "length (driver_pool g) \<le> POOL_SIZE"
    "\<forall>d \<in> set (driver_pool g). d < launched g"
    "\<forall>d \<in> snd ` set (drivers g). d < launched g"
    "distinct (map fst (drivers g))" "distinct (map fst (driver_expiry g))"
    by (simp_all add: pool_inv_def)
  have b: "\<forall>x \<in> snd ` set (filter P (drivers g)). x < launched g" for P
    using sub [of P] inv(4) by blast
  from inv b show ?thesis
    unfolding pool_inv_def sweep_eq Let_def
    by (simp add: distinct_map_filter)
qed

lemma separated_sweep:
  assumes "separated g"
  shows "separated (sweep threshold current_time g)"
proof (rule separated_mono [OF assms])
  show "set (driver_pool (sweep threshold current_time g)) \<subseteq> set (driver_pool g)"
    by (simp add: sweep_fields)
  show "snd ` set (drivers (sweep threshold current_time g)) \<subseteq> snd ` set (drivers g)"
    by (auto simp: sweep_eq Let_def)
qed

lemma pool_inv_tail:
  assumes "pool_inv g" "driver_pool g = d # rest"
  shows "pool_inv (g\<lparr>driver_pool := rest\<rparr>)"
proof -
  from assms have "distinct rest" "length rest \<le> POOL_SIZE"
    "\<forall>x \<in> set rest. x < launched g"
    by (auto simp: pool_inv_def)
  with assms(1) show ?thesis
    by (simp add: pool_inv_def)
qed

lemma pool_inv_shrink: "pool_inv g \<Longrightarrow> pool_inv (shrink quit_ok n g)"
proof (induction n arbitrary: g)
  case 0
  then show ?case by simp
next
  case (Suc n)
  show ?case
  proof (cases "driver_pool g")
    case Nil
    with Suc.prems show ?thesis by simp
  next
    case (Cons d rest)
    from pool_inv_tail [OF Suc.prems Cons]
    have i: "pool_inv (quit d (g\<lparr>driver_pool := rest\<rparr>))"
      by (simp add: pool_inv_quit)
    show ?thesis
    proof (cases "quit_ok d")
      case True
      with Suc.IH [OF i] Cons show ?thesis by simp
    next
      case False
      with i Cons show ?thesis by simp
    qed
  qed
qed

lemma shrink_pool: "set (driver_pool (shrink quit_ok n g)) \<subseteq> set (driver_pool g)"
proof (induction n arbitrary: g)
  case 0
  then show ?case by simp
next
  case (Suc n)
  show ?case
  proof (cases "driver_pool g")
    case Nil
    then show ?thesis by simp
  next
    case (Cons d rest)
    from Suc.IH [of "quit d (g\<lparr>driver_pool := rest\<rparr>)"]
    have "set (driver_pool (shrink quit_ok n (quit d (g\<lparr>driver_pool := rest\<rparr>)))) \<subseteq> set rest"
      by (simp add: quit_fields)
    with Cons show ?thesis
      by (auto simp: quit_fields)
  qed
qed

lemma shrink_registry:
  "drivers (shrink quit_ok n g) = drivers g"
  "driver_expiry (shrink quit_ok n g) = driver_expiry g"
  "take (length (quit_calls g)) (quit_calls (shrink quit_ok n g)) = quit_calls g"
proof -
  have "drivers (shrink quit_ok n g) = drivers g
    \<and> driver_expiry (shrink quit_ok n g) = driver_expiry g
    \<and> take (length (quit_calls g)) (quit_calls (shrink quit_ok n g)) = quit_calls g"
  proof (induction n arbitrary: g)
    case 0
    then show ?case by simp
  next
    case (Suc n)
    show ?case
    proof (cases "driver_pool g")
      case Nil
      then show ?thesis by simp
    next
      case (Cons d rest)
      let ?g = "quit d (g\<lparr>driver_pool := rest\<rparr>)"
      have q: "quit_calls ?g = quit_calls g @ [d]" "drivers ?g = drivers g"
        "driver_expiry ?g = driver_expiry g"
        by (simp_all add: quit_def)
      show ?thesis
      proof (cases "quit_ok d")
        case False
        with Cons q show ?thesis by simp
      next
        case True
        from Suc.IH [of ?g] have
          "drivers (shrink quit_ok n ?g) = drivers g"
          "driver_expiry (shrink quit_ok n ?g) = driver_expiry g"
          and t: "take (length (quit_calls g @ [d])) (quit_calls (shrink quit_ok n ?g))
                = quit_calls g @ [d]"
          by (simp_all add: q)
        moreover from t have
          "take (length (quit_calls g)) (quit_calls (shrink quit_ok n ?g)) = quit_calls g"
          by (metis append_eq_conv_conj take_take min.idem length_append le_add1 min.absorb1)
        ultimately show ?thesis
          using Cons True by simp
      qed
    qed
  qed
  then show "drivers (shrink quit_ok n g) = drivers g"
    "driver_expiry (shrink quit_ok n g) = driver_expiry g"
    "take (length (quit_calls g)) (quit_calls (shrink quit_ok n g)) = quit_calls g"
    by blast+
qed

lemma separated_shrink:
  assumes "separated g"
  shows "separated (shrink quit_ok n g)"
proof (rule separated_mono [OF assms])
  show "set (driver_pool (shrink quit_ok n g)) \<subseteq> set (driver_pool g)"
    by (rule shrink_pool)
  show "snd ` set (drivers (shrink quit_ok n g)) \<subseteq> snd ` set (drivers g)"
    by (simp add: shrink_registry)
qed

lemma pool_inv_monitor:
  "pool_inv g \<Longrightarrow>
   pool_inv (monitor_memory_pass quit_ok memory_usage memory_usage_again current_time g)"
  by (simp add: monitor_memory_pass_def Let_def pool_inv_sweep pool_inv_shrink)

lemma separated_monitor:
  "separated g \<Longrightarrow>
   separated (monitor_memory_pass quit_ok memory_usage memory_usage_again current_time g)"
  by (simp add: monitor_memory_pass_def Let_def separated_sweep separated_shrink)

lemma pool_inv_timer:
  assumes "pool_inv g"
  shows "pool_inv (auto_release_driver sid g)"
proof (cases "map_of (drivers g) sid")
  case None
  with assms show ?thesis by (simp add: auto_release_driver_def)
next
  case (Some d)
  have sub: "snd ` set (AList.delete sid (drivers g)) \<subseteq> snd ` set (drivers g)"
    by (auto simp: AList.delete_eq)
  from assms have inv: "distinct (driver_pool g)" "length (driver_pool g) \<le> POOL_SIZE"
    "\<forall>d \<in> set (driver_pool g). d < launched g"
    "\<forall>d \<in> snd ` set (drivers g). d < launched g"
    "distinct (map fst (drivers g))" "distinct (map fst (driver_expiry g))"
    by (simp_all add: pool_inv_def)
  have b: "\<forall>x \<in> snd ` set (AList.delete sid (drivers g)). x < launched g"
    using sub inv(4) by blast
  from inv b Some show ?thesis
    unfolding pool_inv_def auto_release_driver_def
    by (simp add: quit_def distinct_delete)
qed

lemma separated_timer:
  assumes "separated g"
  shows "separated (auto_release_driver sid g)"
proof (cases "map_of (drivers g) sid")
  case None
  with assms show ?thesis by (simp add: auto_release_driver_def)
next
  case (Some d)
  have sub: "snd ` set (AList.delete sid (drivers g)) \<subseteq> snd ` set (drivers g)"
    by (auto simp: AList.delete_eq)
  show ?thesis
  proof (rule separated_mono [OF assms])
    show "set (driver_pool (auto_release_driver sid g)) \<subseteq> set (driver_pool g)"
      using Some by (simp add: auto_release_driver_def quit_def)
    show "snd ` set (drivers (auto_release_driver sid g)) \<subseteq> snd ` set (drivers g)"
      using Some sub by (simp add: auto_release_driver_def quit_def)
  qed
qed

lemma get_timetable_frame:
  assumes "get_timetable memory sid captcha image_found flow year month now g = (r, g')"
  shows "g' = g \<or> g' = refresh_finally sid now g
      \<or> g' = refresh_finally sid now (refresh sid now g)"
  using assms
  by (auto simp: get_timetable_def
      split: if_splits option.splits login_flow.splits sum.splits)

lemma get_timetable_inv:
  assumes "get_timetable memory sid captcha image_found flow year month now g = (r, g')"
    "pool_inv g"
  shows "pool_inv g'"
  using get_timetable_frame [OF assms(1)] assms(2)
  by (auto simp: pool_inv_refresh pool_inv_refresh_finally)

lemma get_timetable_separated:
  assumes "get_timetable memory sid captcha image_found flow year month now g = (r, g')"
    "separated g"
  shows "separated g'"
proof -
  from get_timetable_frame [OF assms(1)]
  have "driver_pool g' = driver_pool g \<and> drivers g' = drivers g"
    by (auto simp: refresh_finally_fields refresh_fields)
  with assms(2) show ?thesis
    by (simp add: separated_def)
qed

lemma get_semester_weeks_frame:
  assumes "get_semester_weeks chrome memory req page browser now g = (r, g')"
  obtains "g' = g" | sid where "g' = refresh sid now g"
    | r1 where "create_driver chrome g = (r1, g')"
    | d g1 where "create_driver chrome g = (Inr d, g1)" "g' = quit d g1"
  using assms
  by (auto simp: get_semester_weeks_def
      split: if_splits option.splits schedule_page.splits sum.splits prod.splits)

lemma get_semester_weeks_inv:
  assumes "get_semester_weeks chrome memory req page browser now g = (r, g')" "pool_inv g"
  shows "pool_inv g'"
  using assms(1)
proof (cases rule: get_semester_weeks_frame)
  case 1
  with assms(2) show ?thesis by simp
next
  case (2 sid)
  with assms(2) show ?thesis by (simp add: pool_inv_refresh)
next
  case (3 r1)
  from create_driver_inv [OF this assms(2)] show ?thesis .
next
  case (4 d g1)
  from create_driver_inv [OF 4(1) assms(2)] 4(2) show ?thesis
    by (simp add: pool_inv_quit)
qed

lemma get_semester_weeks_separated:
  assumes "get_semester_weeks chrome memory req page browser now g = (r, g')" "separated g"
  shows "separated g'"
proof -
  from assms(1) have "driver_pool g' = driver_pool g \<and> drivers g' = drivers g"
  proof (cases rule: get_semester_weeks_frame)
    case 1
    then show ?thesis by simp
  next
    case (2 sid)
    then show ?thesis by (simp add: refresh_fields)
  next
    case (3 r1)
    from create_driver_fields [OF this] show ?thesis by simp
  next
    case (4 d g1)
    from create_driver_fields [OF 4(1)] 4(2) show ?thesis by (simp add: quit_fields)
  qed
  with assms(2) show ?thesis
    by (simp add: separated_def)
qed

lemma pool_inv_initial: "pool_inv initial"
  by (simp add: pool_inv_def initial_def)

lemma init_pool_inv:
  "init_pool chrome n g = Some g' \<Longrightarrow> pool_inv g \<Longrightarrow> pool_inv g'"
proof (induction n arbitrary: g)
  case 0
  then show ?case by simp
next
  case (Suc n)
  obtain r1 g1 where c: "create_driver chrome g = (r1, g1)"
    by (cases "create_driver chrome g")
  note i1 = create_driver_inv [OF c Suc.prems(2)]
  show ?case
  proof (cases r1)
    case (Inl e)
    with Suc.prems(1) c i1 show ?thesis by simp
  next
    case (Inr d)
    note fr = create_driver_fresh [OF c [unfolded Inr] Suc.prems(2)]
      and nw = create_driver_new [OF c [unfolded Inr]]
    from Suc.prems(1) c Inr obtain g2 where p: "put d g1 = Some g2"
      and rest: "init_pool chrome n g2 = Some g'"
      by (auto split: option.splits)
    from p have lt: "length (driver_pool g1) < POOL_SIZE"
      and g2: "g2 = g1\<lparr>driver_pool := driver_pool g1 @ [d]\<rparr>"
      by (auto simp: put_def split: if_splits)
    have "pool_inv g2"
      unfolding g2 using i1 lt fr(1) nw(2) by (rule pool_inv_put)
    from Suc.IH [OF rest this] show ?thesis .
  qed
qed

lemma init_pool_drivers: "init_pool chrome n g = Some g' \<Longrightarrow> drivers g' = drivers g"
proof (induction n arbitrary: g)
  case 0
  then show ?case by simp
next
  case (Suc n)
  obtain r1 g1 where c: "create_driver chrome g = (r1, g1)"
    by (cases "create_driver chrome g")
  note f = create_driver_fields [OF c]
  show ?case
  proof (cases r1)
    case (Inl e)
    with Suc.prems c f show ?thesis by simp
  next
    case (Inr d)
    from Suc.prems c Inr obtain g2 where p: "put d g1 = Some g2"
      and rest: "init_pool chrome n g2 = Some g'"
      by (auto split: option.splits)
    from p have "drivers g2 = drivers g1"
      by (auto simp: put_def split: if_splits)
    with Suc.IH [OF rest] f show ?thesis by simp
  qed
qed

lemma startup_separated: "startup chrome = Some g \<Longrightarrow> separated g"
proof -
  assume "startup chrome = Some g"
  then have "drivers g = drivers initial"
    unfolding startup_def by (rule init_pool_drivers)
  then show ?thesis
    by (simp add: separated_def initial_def)
qed

lemma reachable_inv: "reachable chrome g \<Longrightarrow> pool_inv g"
proof (induction rule: reachable.induct)
  case (start g)
  then show ?case
    by (auto simp: startup_def intro: init_pool_inv pool_inv_initial)
next
  case (captcha g memory page announced cleared session_id now r g')
  then show ?case by (auto intro: get_captcha_inv)
next
  case (timetable g memory sid captcha image_found flow year month now r g')
  then show ?case by (auto intro: get_timetable_inv)
next
  case (semester_weeks g memory req page browser now r g')
  then show ?case by (auto intro: get_semester_weeks_inv)
next
  case (cleanup g current_time)
  then show ?case by (simp add: cleanup_drivers_pass_def pool_inv_sweep)
next
  case (monitor g quit_ok memory_usage memory_usage_again current_time)
  then show ?case by (simp add: pool_inv_monitor)
next
  case (timer g sid)
  then show ?case by (simp add: pool_inv_timer)
qed

lemma reachable_announced_reachable: "reachable_announced chrome g \<Longrightarrow> reachable chrome g"
proof (induction rule: reachable_announced.induct)
  case (start g)
  then show ?case by (rule reachable.start)
next
  case (captcha g memory page cleared session_id now r g')
  from reachable.captcha [OF captcha(3) captcha(2)] show ?case .
next
  case (timetable g memory sid captcha image_found flow year month now r g')
  from reachable.timetable [OF timetable(3) timetable(2)] show ?case .
next
  case (semester_weeks g memory req page browser now r g')
  from reachable.semester_weeks [OF semester_weeks(3) semester_weeks(2)] show ?case .
next
  case (cleanup g current_time)
  then show ?case by (simp add: reachable.cleanup)
next
  case (monitor g quit_ok memory_usage memory_usage_again current_time)
  then show ?case by (simp add: reachable.monitor)
next
  case (timer g sid)
  then show ?case by (simp add: reachable.timer)
qed

lemma reachable_announced_separated: "reachable_announced chrome g \<Longrightarrow> separated g"
proof (induction rule: reachable_announced.induct)
  case (start g)
  then show ?case by (rule startup_separated)
next
  case (captcha g memory page cleared session_id now r g')
  from reachable_inv [OF reachable_announced_reachable [OF captcha(1)]]
  have "pool_inv g" .
  from get_captcha_separated [OF captcha(2) this captcha(3)] show ?case .
next
  case (timetable g memory sid captcha image_found flow year month now r g')
  from get_timetable_separated [OF timetable(2) timetable(3)] show ?case .
next
  case (semester_weeks g memory req page browser now r g')
  from get_semester_weeks_separated [OF semester_weeks(2) semester_weeks(3)] show ?case .
next
  case (cleanup g current_time)
  then show ?case by (simp add: cleanup_drivers_pass_def separated_sweep)
next
  case (monitor g quit_ok memory_usage memory_usage_again current_time)
  then show ?case by (simp add: separated_monitor)
next
  case (timer g sid)
  then show ?case by (simp add: separated_timer)
qed

subsection \<open>The example states\<close>

lemma startup_chrome_ok: "startup chrome_ok = Some started"
  by (simp add: startup_def POOL_SIZE_def initial_def eval_nat_numeral create_driver_def
      webdriver_Chrome_def put_def chrome_ok_def started_def)

lemma is_data_image_src: "is_data_image (Some data_src)"
  by (simp add: is_data_image_def data_src_def ascii_def)

lemma captcha_started:
  "get_captcha chrome_ok 120 (CaptchaSrc (Some data_src)) True cleared sid0 t started =
     Some (Inr (sid0, data_src), session_at t)"
  by (simp add: get_captcha_def get_driver_def take_driver_def started_def session_at_def
      usage_count_def MAX_USAGE_PER_DRIVER_def is_data_image_src)

lemma reachable_started: "reachable chrome_ok started"
  by (rule reachable.start) (rule startup_chrome_ok)

lemma reachable_session_at: "reachable chrome_ok (session_at t)"
  by (rule reachable.captcha [OF reachable_started captcha_started])

lemma reachable_announced_started: "reachable_announced chrome_ok started"
  by (rule reachable_announced.start) (rule startup_chrome_ok)

lemma reachable_announced_session_at: "reachable_announced chrome_ok (session_at t)"
  by (rule reachable_announced.captcha [OF reachable_announced_started captcha_started])

lemma extract_three_weeks:
  "\<exists>resp. extract_semester alert_in_second three_semesters three_weeks (ascii ''42'') 19
            = Inr resp"
proof -
  have fit: "\<forall>cells \<in> set grid_rows. length cells \<le> length grid_header"
    by (simp add: grid_rows_def grid_header_def)
  have "set (drop 1 (map cell_text grid_header))
      \<subseteq> fst ` set (empty_courses (drop 1 (map cell_text grid_header)))"
    by (simp add: keys_empty_courses)
  from add_rows_total [OF fit this] obtain wc where
    wc: "parse_grid grid_header grid_rows = Inr wc"
    by (auto simp: parse_grid_def)
  have steps: "\<exists>r. week_step wopt (alert_in_second i) = Inr r" for wopt i
    by (simp add: week_step_def alert_in_second_def grid_page_def alert_page_def wc ascii_def)
  then have "\<forall>iw \<in> set (enumerate 0 (take (total_weeks 19) three_weeks)).
      \<exists>r. week_step (snd iw) (alert_in_second (fst iw)) = Inr r"
    by blast
  from weeks_loop_total [OF this, of "[]"] obtain ws where
    ws: "weeks_loop alert_in_second (enumerate 0 (take (total_weeks 19) three_weeks)) [] = Inr ws"
    by blast
  have "matched_sem (ascii ''42'') three_semesters \<noteq> None"
    by (simp add: three_semesters_def sem_entry_def val_name_def opt_get_def py_or_def ascii_def)
  then obtain v n where "matched_sem (ascii ''42'') three_semesters = Some (v, n)"
    by (cases "matched_sem (ascii ''42'') three_semesters") auto
  with ws show ?thesis
    by (simp add: extract_semester_def)
qed

lemma weeks_touch:
  "\<exists>resp. get_semester_weeks chrome_ok 120 weeks_request
            (SchedulePage three_semesters three_weeks) alert_in_second t' (session_at t)
          = (Inr resp, session_at t')"
proof -
  from extract_three_weeks obtain resp where
    "extract_semester alert_in_second three_semesters three_weeks (ascii ''42'') 19 = Inr resp"
    by blast
  moreover have "sid0 \<noteq> []"
    by (simp add: sid0_def ascii_def)
  ultimately show ?thesis
    by (simp add: get_semester_weeks_def weeks_request_def session_at_def as_http_def
        refresh_def)
qed

subsection \<open>Sweeps\<close>

lemma map_of_filter_key:
  "map_of (filter (\<lambda>(k, v). Q k) al) k = (if Q k then map_of al k else None)"
  by (induction al) auto

lemma stale_keys:
  assumes "distinct (map fst (driver_expiry g))"
  shows "sid \<in> set (map fst (filter (\<lambda>(sid, t). now - t > threshold) (driver_expiry g)))
     \<longleftrightarrow> stale threshold now g sid"
proof -
  have "sid \<in> set (map fst (filter (\<lambda>(sid, t). now - t > threshold) (driver_expiry g)))
      \<longleftrightarrow> (\<exists>t. (sid, t) \<in> set (driver_expiry g) \<and> now - t > threshold)"
    by force
  also have "\<dots> \<longleftrightarrow> (\<exists>t. map_of (driver_expiry g) sid = Some t \<and> now - t > threshold)"
    using assms by simp
  also have "\<dots> \<longleftrightarrow> stale threshold now g sid"
    by (auto simp: stale_def split: option.splits)
  finally show ?thesis .
qed

lemma sweep_expiry:
  assumes "distinct (map fst (driver_expiry g))"
  shows "driver_expiry (sweep threshold now g) =
     filter (\<lambda>(sid, t). \<not> (now - t > threshold)) (driver_expiry g)"
proof -
  let ?sids = "map fst (filter (\<lambda>(sid, t). now - t > threshold) (driver_expiry g))"
  have "(k \<notin> set ?sids) = (\<not> (now - t > threshold))" if "(k, t) \<in> set (driver_expiry g)" for k t
  proof -
    from that assms have "map_of (driver_expiry g) k = Some t" by simp
    then have "stale threshold now g k \<longleftrightarrow> now - t > threshold"
      by (simp add: stale_def)
    with stale_keys [OF assms, where sid = k and now = now and threshold = threshold]
    show ?thesis by simp
  qed
  then have "filter (\<lambda>(k, v). k \<notin> set ?sids) (driver_expiry g) =
      filter (\<lambda>(sid, t). \<not> (now - t > threshold)) (driver_expiry g)"
    by (intro filter_cong) auto
  then show ?thesis
    by (simp add: sweep_eq Let_def)
qed

lemma sweep_drivers:
  assumes "distinct (map fst (driver_expiry g))"
  shows "drivers (sweep threshold now g) =
     filter (\<lambda>(sid, d). \<not> stale threshold now g sid) (drivers g)"
proof -
  let ?sids = "map fst (filter (\<lambda>(sid, t). now - t > threshold) (driver_expiry g))"
  have "filter (\<lambda>(k, v). k \<notin> set ?sids) (drivers g) =
      filter (\<lambda>(sid, d). \<not> stale threshold now g sid) (drivers g)"
    using stale_keys [OF assms, where now = now and threshold = threshold]
    by (intro filter_cong) auto
  then show ?thesis
    by (simp add: sweep_eq Let_def)
qed

lemma in_set_map_filter:
  "x \<in> set xs \<Longrightarrow> f x = Some y \<Longrightarrow> y \<in> set (List.map_filter f xs)"
  by (induction xs) (auto split: option.splits)

lemma sweep_quit_calls:
  "quit_calls (sweep threshold now g) =
     quit_calls g @ List.map_filter (map_of (drivers g))
       (map fst (filter (\<lambda>(sid, t). now - t > threshold) (driver_expiry g)))"
  by (simp add: sweep_eq Let_def)

lemma monitor_after_sweep:
  assumes "memory_usage > 400"
  shows "drivers (monitor_memory_pass quit_ok memory_usage again now g)
           = drivers (sweep 180 now g)"
    "driver_expiry (monitor_memory_pass quit_ok memory_usage again now g)
           = driver_expiry (sweep 180 now g)"
    "take (length (quit_calls (sweep 180 now g)))
       (quit_calls (monitor_memory_pass quit_ok memory_usage again now g))
           = quit_calls (sweep 180 now g)"
  using assms by (simp_all add: monitor_memory_pass_def Let_def shrink_registry)


text \<open>
  Claim C4. A sweep with a threshold removes exactly the sessions whose age, the
  current time minus the time stamp, is greater than the threshold: their entries
  leave both dictionaries, \<open>quit()\<close> is called on their drivers, and nothing else
  changes. The idle sweep is the sweep with the threshold 300, and a pass of the memory
  monitor that reads more than 400 MB starts with the sweep with the threshold 180.
  So a session of age 200 is kept by the idle sweep, and the memory-pressure sweep
  quits its driver and deletes it from both dictionaries.
\<close>

theorem sweep_removes_exactly_stale:
  "(distinct (map fst (driver_expiry g)) \<longrightarrow>
      driver_expiry (sweep threshold now g) =
        filter (\<lambda>(sid, t). \<not> (now - t > threshold)) (driver_expiry g)
      \<and> drivers (sweep threshold now g) =
        filter (\<lambda>(sid, d). \<not> stale threshold now g sid) (drivers g)
      \<and> quit_calls (sweep threshold now g) =
        quit_calls g @ List.map_filter (map_of (drivers g))
          (map fst (filter (\<lambda>(sid, t). now - t > threshold) (driver_expiry g)))
      \<and> driver_pool (sweep threshold now g) = driver_pool g
      \<and> driver_usage_count (sweep threshold now g) = driver_usage_count g)
   \<and> cleanup_drivers_pass now g = sweep 300 now g
   \<and> (memory_usage > 400 \<longrightarrow>
        drivers (monitor_memory_pass quit_ok memory_usage again now g)
          = drivers (sweep 180 now g)
        \<and> driver_expiry (monitor_memory_pass quit_ok memory_usage again now g)
          = driver_expiry (sweep 180 now g)
        \<and> take (length (quit_calls (sweep 180 now g)))
             (quit_calls (monitor_memory_pass quit_ok memory_usage again now g))
          = quit_calls (sweep 180 now g))
   \<and> (distinct (map fst (driver_expiry g)) \<and> map_of (driver_expiry g) sid = Some t
        \<and> now - t = 200 \<and> map_of (drivers g) sid = Some d \<longrightarrow>
        map_of (drivers (cleanup_drivers_pass now g)) sid = Some d
        \<and> map_of (driver_expiry (cleanup_drivers_pass now g)) sid = Some t
        \<and> (memory_usage > 400 \<longrightarrow>
             map_of (drivers (monitor_memory_pass quit_ok memory_usage again now g)) sid = None
             \<and> map_of (driver_expiry (monitor_memory_pass quit_ok memory_usage again now g)) sid
                 = None
             \<and> d \<in> set (quit_calls (monitor_memory_pass quit_ok memory_usage again now g))))"
proof -
  let ?monitor = "monitor_memory_pass quit_ok memory_usage again now g"
  have a: "distinct (map fst (driver_expiry g)) \<longrightarrow>
      driver_expiry (sweep threshold now g) =
        filter (\<lambda>(sid, t). \<not> (now - t > threshold)) (driver_expiry g)
      \<and> drivers (sweep threshold now g) =
        filter (\<lambda>(sid, d). \<not> stale threshold now g sid) (drivers g)
      \<and> quit_calls (sweep threshold now g) =
        quit_calls g @ List.map_filter (map_of (drivers g))
          (map fst (filter (\<lambda>(sid, t). now - t > threshold) (driver_expiry g)))
      \<and> driver_pool (sweep threshold now g) = driver_pool g
      \<and> driver_usage_count (sweep threshold now g) = driver_usage_count g"
    using sweep_expiry sweep_drivers sweep_quit_calls sweep_fields(1,2) by blast
  have b: "cleanup_drivers_pass now g = sweep 300 now g"
    by (simp add: cleanup_drivers_pass_def)
  have c: "memory_usage > 400 \<longrightarrow>
        drivers ?monitor = drivers (sweep 180 now g)
        \<and> driver_expiry ?monitor = driver_expiry (sweep 180 now g)
        \<and> take (length (quit_calls (sweep 180 now g))) (quit_calls ?monitor)
          = quit_calls (sweep 180 now g)"
    using monitor_after_sweep by blast
  have d: "map_of (drivers (cleanup_drivers_pass now g)) sid = Some d
        \<and> map_of (driver_expiry (cleanup_drivers_pass now g)) sid = Some t
        \<and> (memory_usage > 400 \<longrightarrow>
             map_of (drivers ?monitor) sid = None
             \<and> map_of (driver_expiry ?monitor) sid = None
             \<and> d \<in> set (quit_calls ?monitor))"
    if h: "distinct (map fst (driver_expiry g)) \<and> map_of (driver_expiry g) sid = Some t
        \<and> now - t = 200 \<and> map_of (drivers g) sid = Some d"
  proof -
    from h have dist: "distinct (map fst (driver_expiry g))"
      and e: "map_of (driver_expiry g) sid = Some t" and age: "now - t = 200"
      and dr: "map_of (drivers g) sid = Some d"
      by auto
    have fresh: "\<not> stale 300 now g sid"
      using e age by (simp add: stale_def)
    have old: "stale 180 now g sid"
      using e age by (simp add: stale_def)
    have keys: "driver_expiry (sweep th now g) =
        filter (\<lambda>(k, v). \<not> stale th now g k) (driver_expiry g)" for th
    proof -
      have "filter (\<lambda>(k, v). k \<notin> set (map fst (filter (\<lambda>(sid, t). now - t > th)
                (driver_expiry g)))) (driver_expiry g) =
          filter (\<lambda>(k, v). \<not> stale th now g k) (driver_expiry g)"
        using stale_keys [OF dist, where now = now and threshold = th]
        by (intro filter_cong) auto
      then show ?thesis by (simp add: sweep_eq Let_def)
    qed
    have k1: "map_of (drivers (cleanup_drivers_pass now g)) sid = Some d"
      using fresh dr by (simp add: b sweep_drivers [OF dist] map_of_filter_key)
    have k2: "map_of (driver_expiry (cleanup_drivers_pass now g)) sid = Some t"
      using fresh e by (simp add: b keys map_of_filter_key)
    have r1: "map_of (drivers (sweep 180 now g)) sid = None"
      using old by (simp add: sweep_drivers [OF dist] map_of_filter_key)
    have r2: "map_of (driver_expiry (sweep 180 now g)) sid = None"
      using old by (simp add: keys map_of_filter_key)
    have "sid \<in> set (map fst (filter (\<lambda>(sid, t). now - t > 180) (driver_expiry g)))"
      using old stale_keys [OF dist, where now = now and threshold = 180 and sid = sid]
      by simp
    from in_set_map_filter [of sid _ "map_of (drivers g)" d, OF this dr] have qd: "d \<in> set (quit_calls (sweep 180 now g))"
      by (simp add: sweep_quit_calls)
    have r3: "d \<in> set (quit_calls ?monitor)" if "memory_usage > 400"
      using monitor_after_sweep(3) [OF that, where quit_ok = quit_ok and again = again
          and now = now and g = g] qd
      by (metis in_set_takeD)
    from k1 k2 r1 r2 r3 c show ?thesis by simp
  qed
  from a b c d show ?thesis by blast
qed

text \<open>
  The session \<open>sid0\<close>, stamped at time 0 and bound to driver 0, at time 200: the idle
  sweep changes nothing, and the pass of the memory monitor that reads 450 MB removes
  the session and quits driver 0.
\<close>

theorem sweep_removes_exactly_stale_witness:
  "cleanup_drivers_pass 200 (session_at 0) = session_at 0
   \<and> map_of (drivers (cleanup_drivers_pass 200 (session_at 0))) sid0 = Some 0
   \<and> map_of (drivers (monitor_memory_pass (\<lambda>d. True) 450 390 200 (session_at 0))) sid0 = None
   \<and> map_of (driver_expiry (monitor_memory_pass (\<lambda>d. True) 450 390 200 (session_at 0))) sid0
        = None
   \<and> 0 \<in> set (quit_calls (monitor_memory_pass (\<lambda>d. True) 450 390 200 (session_at 0)))"
proof -
  have dist: "distinct (map fst (driver_expiry (session_at 0)))"
    by (simp add: session_at_def)
  have e: "map_of (driver_expiry (session_at 0)) sid0 = Some 0"
    "map_of (drivers (session_at 0)) sid0 = Some 0"
    by (simp_all add: session_at_def)
  note t = sweep_removes_exactly_stale
    [of "session_at 0" 300 200 450 "\<lambda>d. True" 390 sid0 0 0]
  have m: "(450::real) > 400" by simp
  from t dist have fields:
    "driver_expiry (sweep 300 200 (session_at 0)) = driver_expiry (session_at 0)"
    "drivers (sweep 300 200 (session_at 0)) = drivers (session_at 0)"
    "quit_calls (sweep 300 200 (session_at 0)) = quit_calls (session_at 0)"
    "driver_pool (sweep 300 200 (session_at 0)) = driver_pool (session_at 0)"
    "driver_usage_count (sweep 300 200 (session_at 0)) = driver_usage_count (session_at 0)"
    by (simp_all add: session_at_def stale_def)
  have "launched (sweep 300 200 (session_at 0)) = launched (session_at 0)"
    by (rule sweep_fields)
  with fields have same: "sweep 300 200 (session_at 0) = session_at 0"
    by (intro globals.equality) simp_all
  from t have "cleanup_drivers_pass 200 (session_at 0) = sweep 300 200 (session_at 0)"
    by blast
  with same have a: "cleanup_drivers_pass 200 (session_at 0) = session_at 0"
    by simp
  from t [THEN conjunct2, THEN conjunct2, THEN conjunct2] dist e m
  show ?thesis
    by (simp add: a)
qed

subsection \<open>Usage counters\<close>

lemma release_driver_cleared:
  assumes "release_driver chrome True d g = Some g'"
  shows "usage_count g' (py_id chrome d) = usage_count g (py_id chrome d) + 1"
    "k \<noteq> py_id chrome d \<Longrightarrow> usage_count g' k = usage_count g k"
    "driver_pool g' = driver_pool g @ [d]"
proof -
  from assms have g': "g' = g\<lparr>driver_usage_count :=
        AList.update (py_id chrome d) (usage_count g (py_id chrome d) + 1)
          (driver_usage_count g),
      driver_pool := driver_pool g @ [d]\<rparr>"
    by (auto simp: release_driver_def put_def split: if_splits)
  show "usage_count g' (py_id chrome d) = usage_count g (py_id chrome d) + 1"
    "k \<noteq> py_id chrome d \<Longrightarrow> usage_count g' k = usage_count g k"
    "driver_pool g' = driver_pool g @ [d]"
    unfolding g' by (simp_all add: usage_count_def update_conv')
qed

lemma get_driver_replace:
  assumes "driver_pool g = d0 # rest"
    "MAX_USAGE_PER_DRIVER \<le> usage_count g (py_id chrome d0)"
    "get_driver chrome g = (Inr d, g')"
  shows "d0 \<in> set (quit_calls g')" "driver_pool g' = rest" "launched g \<le> d" "d < launched g'"
    "usage_count g' k = (if k = py_id chrome d0 then 0 else usage_count g k)"
proof -
  from assms(1) have t: "take_driver chrome g = (Inr d0, g\<lparr>driver_pool := rest\<rparr>)"
    by (simp add: take_driver_def)
  have u: "usage_count (g\<lparr>driver_pool := rest\<rparr>) (py_id chrome d0)
      = usage_count g (py_id chrome d0)"
    by (simp add: usage_count_def)
  from assms(2,3) t u obtain g2 where
    c: "create_driver chrome (quit d0 (g\<lparr>driver_pool := rest\<rparr>)) = (Inr d, g2)"
    and g': "g' = g2\<lparr>driver_usage_count :=
                      AList.update (py_id chrome d0) 0 (driver_usage_count g2)\<rparr>"
    by (auto simp: get_driver_def split: prod.splits sum.splits)
  note f = create_driver_fields [OF c, unfolded quit_fields]
    and n = create_driver_new [OF c, unfolded quit_fields]
  from f n show "d0 \<in> set (quit_calls g')" "driver_pool g' = rest" "launched g \<le> d"
    "d < launched g'"
    by (simp_all add: g')
  have "driver_usage_count g2 = driver_usage_count g"
    using f(4) by simp
  then show "usage_count g' k = (if k = py_id chrome d0 then 0 else usage_count g k)"
    by (simp add: g' usage_count_def update_conv')
qed

text \<open>
  What release_driver and get_driver do with the usage table. A release whose
  clearing succeeds and which returns raises the counter under the address of the
  released driver by exactly one, leaves the other counters as they are and appends the
  driver to the pool. In a reachable state whose pool starts with a driver whose
  counter has reached the ceiling of 15, get_driver calls \<open>quit()\<close> on this driver,
  leaves the rest of the pool, returns another driver, created by this very call, and
  sets the counter under the address of the discarded driver to 0; the counter of the
  driver it returns is what the table held under the address of that driver, unless
  this is the address of the discarded one.
\<close>

theorem release_counts_one_and_worn_head_replaced:
  "(release_driver chrome True d g = Some g' \<longrightarrow>
      usage_count g' (py_id chrome d) = usage_count g (py_id chrome d) + 1
      \<and> (\<forall>k. k \<noteq> py_id chrome d \<longrightarrow> usage_count g' k = usage_count g k)
      \<and> driver_pool g' = driver_pool g @ [d])
   \<and> (reachable chrome g \<and> driver_pool g = d0 # rest
        \<and> MAX_USAGE_PER_DRIVER \<le> usage_count g (py_id chrome d0)
        \<and> get_driver chrome g = (Inr d, g') \<longrightarrow>
      d0 \<in> set (quit_calls g') \<and> driver_pool g' = rest \<and> d0 \<notin> set (driver_pool g')
      \<and> d \<noteq> d0 \<and> launched g \<le> d \<and> d < launched g'
      \<and> usage_count g' (py_id chrome d0) = 0
      \<and> usage_count g' (py_id chrome d) =
          (if py_id chrome d = py_id chrome d0 then 0 else usage_count g (py_id chrome d)))
   \<and> MAX_USAGE_PER_DRIVER = 15"
proof -
  have a: "release_driver chrome True d g = Some g' \<longrightarrow>
      usage_count g' (py_id chrome d) = usage_count g (py_id chrome d) + 1
      \<and> (\<forall>k. k \<noteq> py_id chrome d \<longrightarrow> usage_count g' k = usage_count g k)
      \<and> driver_pool g' = driver_pool g @ [d]"
    using release_driver_cleared by blast
  have c: "d0 \<in> set (quit_calls g') \<and> driver_pool g' = rest \<and> d0 \<notin> set (driver_pool g')
      \<and> d \<noteq> d0 \<and> launched g \<le> d \<and> d < launched g'
      \<and> usage_count g' (py_id chrome d0) = 0
      \<and> usage_count g' (py_id chrome d) =
          (if py_id chrome d = py_id chrome d0 then 0 else usage_count g (py_id chrome d))"
    if h: "reachable chrome g \<and> driver_pool g = d0 # rest
        \<and> MAX_USAGE_PER_DRIVER \<le> usage_count g (py_id chrome d0)
        \<and> get_driver chrome g = (Inr d, g')"
  proof -
    from h have inv: "pool_inv g" and p: "driver_pool g = d0 # rest"
      and w: "MAX_USAGE_PER_DRIVER \<le> usage_count g (py_id chrome d0)"
      and r: "get_driver chrome g = (Inr d, g')"
      by (auto intro: reachable_inv)
    note rep = get_driver_replace [OF p w r]
    from inv p have d0: "d0 < launched g" "d0 \<notin> set rest"
      by (auto simp: pool_inv_def)
    with rep(3) have ne: "d \<noteq> d0" by simp
    from rep(1-4) rep(5) [of "py_id chrome d0"] rep(5) [of "py_id chrome d"] d0 ne
    show ?thesis by simp
  qed
  have e: "MAX_USAGE_PER_DRIVER = 15"
    by (simp add: MAX_USAGE_PER_DRIVER_def)
  from a c e show ?thesis by blast
qed

subsection \<open>Worn drivers\<close>

lemma startup_worn:
  assumes "chrome 0 = Started 0" "chrome (Suc 0) = NotCreated"
    "chrome (Suc (Suc 0)) = NotCreated"
  shows "startup chrome = Some (worn 0)"
  using assms
  by (simp add: startup_def POOL_SIZE_def initial_def eval_nat_numeral create_driver_def
      webdriver_Chrome_def put_def worn_def)

lemma captcha_worn:
  assumes "chrome 0 = Started 0" "k < 15" "\<not> memory > 500"
  shows "get_captcha chrome memory PageFailed announced True sid now (worn k)
           = Some (Inl (HTTPException 500), worn (Suc k))"
proof -
  have a: "py_id chrome 0 = 0"
    using assms(1) by (simp add: py_id_def)
  have u: "usage_count (worn k\<lparr>driver_pool := []\<rparr>) (py_id chrome 0) = k"
    by (simp add: usage_count_def worn_def a)
  have t: "take_driver chrome (worn k) = (Inr 0, worn k\<lparr>driver_pool := []\<rparr>)"
    by (simp add: take_driver_def worn_def)
  have gd: "get_driver chrome (worn k) = (Inr 0, worn k\<lparr>driver_pool := []\<rparr>)"
    using assms(2) by (simp add: get_driver_def t u MAX_USAGE_PER_DRIVER_def)
  have rel: "release_driver chrome True 0 (worn k\<lparr>driver_pool := []\<rparr>) = Some (worn (Suc k))"
    by (simp add: release_driver_def u put_def POOL_SIZE_def) (simp add: worn_def a)
  from assms(3) gd rel show ?thesis
    by (simp add: get_captcha_def)
qed

lemma reachable_worn:
  assumes "chrome 0 = Started 0" "chrome (Suc 0) = NotCreated"
    "chrome (Suc (Suc 0)) = NotCreated"
  shows "k \<le> 15 \<Longrightarrow> reachable chrome (worn k)"
proof (induction k)
  case 0
  show ?case
    by (rule reachable.start) (rule startup_worn [OF assms])
next
  case (Suc k)
  then have r: "reachable chrome (worn k)" and k: "k < 15"
    by simp_all
  have "get_captcha chrome 120 PageFailed True True [] 0 (worn k)
      = Some (Inl (HTTPException 500), worn (Suc k))"
    by (rule captcha_worn [where chrome = chrome, OF assms(1) k]) simp
  from reachable.captcha [OF r this] show ?case .
qed

lemma reachable_worn_flaky: "reachable chrome_flaky (worn 15)"
  by (rule reachable_worn) (simp_all add: chrome_flaky_def)

lemma reachable_worn_dying: "reachable chrome_dying (worn 15)"
  by (rule reachable_worn) (simp_all add: chrome_dying_def)

lemma py_id_flaky: "py_id chrome_flaky 0 = 0" "py_id chrome_flaky 3 = 3"
  by (simp_all add: py_id_def chrome_flaky_def)

lemma py_id_dying: "py_id chrome_dying 0 = 0"
  by (simp add: py_id_def chrome_dying_def)

lemma usage_worn: "usage_count (worn 15) 0 = 15"
  by (simp add: usage_count_def worn_def)

lemma get_driver_worn_flaky:
  "get_driver chrome_flaky (worn 15) =
     (Inr 3, \<lparr>driver_pool = [], drivers = [], driver_expiry = [],
              driver_usage_count = [(0, 0)], launched = 4, quit_calls = [0]\<rparr>)"
proof -
  have u: "usage_count (worn 15\<lparr>driver_pool := []\<rparr>) (py_id chrome_flaky 0) = 15"
    by (simp add: usage_count_def worn_def py_id_flaky)
  have t: "take_driver chrome_flaky (worn 15) = (Inr 0, worn 15\<lparr>driver_pool := []\<rparr>)"
    by (simp add: take_driver_def worn_def)
  have c: "create_driver chrome_flaky (quit 0 (worn 15\<lparr>driver_pool := []\<rparr>)) =
      (Inr 3, \<lparr>driver_pool = [], drivers = [], driver_expiry = [],
              driver_usage_count = [(0, 15)], launched = 4, quit_calls = [0]\<rparr>)"
    by (simp add: create_driver_def webdriver_Chrome_def quit_def worn_def chrome_flaky_def)
  show ?thesis
    by (simp add: get_driver_def t u c MAX_USAGE_PER_DRIVER_def) (simp add: py_id_flaky)
qed

text \<open>
  With the installation \<open>chrome_flaky\<close>, after fifteen captcha requests whose page failed:
  the only driver has the usage count 15, get_driver quits it, sets its counter to 0
  and returns the new driver 3, under whose address the table holds nothing; and the
  fifteenth release raised the counter from 14 to 15.
\<close>

theorem release_counts_one_and_worn_head_replaced_witness:
  "\<exists>g' g''. get_driver chrome_flaky (worn 15) = (Inr 3, g')
     \<and> usage_count (worn 15) (py_id chrome_flaky 0) = 15
     \<and> usage_count g' (py_id chrome_flaky 0) = 0
     \<and> usage_count g' (py_id chrome_flaky 3) = 0
     \<and> 0 \<in> set (quit_calls g') \<and> driver_pool g' = []
     \<and> release_driver chrome_flaky True 0 (worn 14\<lparr>driver_pool := []\<rparr>) = Some g''
     \<and> usage_count g'' (py_id chrome_flaky 0)
          = usage_count (worn 14\<lparr>driver_pool := []\<rparr>) (py_id chrome_flaky 0) + 1"
proof -
  let ?g' = "\<lparr>driver_pool = [], drivers = [], driver_expiry = [],
              driver_usage_count = [(0, 0)], launched = 4, quit_calls = [0]\<rparr>"
  have p: "driver_pool (worn 15) = 0 # []"
    by (simp add: worn_def)
  have u: "usage_count (worn 15) (py_id chrome_flaky 0) = 15"
    by (simp add: usage_worn py_id_flaky)
  then have w: "MAX_USAGE_PER_DRIVER \<le> usage_count (worn 15) (py_id chrome_flaky 0)"
    by (simp add: MAX_USAGE_PER_DRIVER_def)
  note t = release_counts_one_and_worn_head_replaced
    [of chrome_flaky 3 "worn 15" ?g' 0 "[]", THEN conjunct2, THEN conjunct1]
  from t reachable_worn_flaky get_driver_worn_flaky p w
  have b: "0 \<in> set (quit_calls ?g') \<and> driver_pool ?g' = []
      \<and> usage_count ?g' (py_id chrome_flaky 0) = 0
      \<and> usage_count ?g' (py_id chrome_flaky 3) =
          (if py_id chrome_flaky 3 = py_id chrome_flaky 0 then 0
           else usage_count (worn 15) (py_id chrome_flaky 3))"
    by blast
  have "usage_count (worn 15) (py_id chrome_flaky 3) = 0"
    by (simp add: usage_count_def worn_def py_id_flaky)
  with b have b': "usage_count ?g' (py_id chrome_flaky 3) = 0"
    by (simp add: py_id_flaky)
  have rel: "release_driver chrome_flaky True 0 (worn 14\<lparr>driver_pool := []\<rparr>) = Some (worn 15)"
    by (simp add: release_driver_def put_def POOL_SIZE_def usage_count_def py_id_flaky)
       (simp add: worn_def)
  from release_counts_one_and_worn_head_replaced
    [of chrome_flaky 0 "worn 14\<lparr>driver_pool := []\<rparr>" "worn 15", THEN conjunct1] rel
  have c: "usage_count (worn 15) (py_id chrome_flaky 0)
      = usage_count (worn 14\<lparr>driver_pool := []\<rparr>) (py_id chrome_flaky 0) + 1"
    by blast
  from get_driver_worn_flaky u b b' rel c show ?thesis
    by blast
qed

text \<open>
  Claim C3. A failure of get_driver is to reach the caller as the error 503 on every
  path. On the path that replaces a worn driver it does not: with the installation
  \<open>chrome_dying\<close>, after fifteen captcha requests whose page failed, the next call of
  get_driver quits the worn driver and the creation of the replacement raises
  SessionNotCreatedException, which get_driver and get_captcha pass on as it is; in the
  same state with an empty pool, the same failed creation is reported as 503.
\<close>

theorem replacement_failure_not_503:
  "reachable chrome_dying (worn 15)
   \<and> get_driver chrome_dying (worn 15) =
       (Inl SessionNotCreatedException,
        \<lparr>driver_pool = [], drivers = [], driver_expiry = [],
         driver_usage_count = [(0, 15)], launched = 5, quit_calls = [0]\<rparr>)
   \<and> get_captcha chrome_dying 120 (CaptchaSrc (Some data_src)) True True sid0 0 (worn 15) =
       Some (Inl SessionNotCreatedException,
        \<lparr>driver_pool = [], drivers = [], driver_expiry = [],
         driver_usage_count = [(0, 15)], launched = 5, quit_calls = [0]\<rparr>)
   \<and> get_driver chrome_dying (worn 15\<lparr>driver_pool := []\<rparr>) =
       (Inl (HTTPException 503),
        \<lparr>driver_pool = [], drivers = [], driver_expiry = [],
         driver_usage_count = [(0, 15)], launched = 5, quit_calls = []\<rparr>)"
proof -
  have u: "usage_count (worn 15\<lparr>driver_pool := []\<rparr>) (py_id chrome_dying 0) = 15"
    by (simp add: usage_count_def worn_def py_id_dying)
  have t: "take_driver chrome_dying (worn 15) = (Inr 0, worn 15\<lparr>driver_pool := []\<rparr>)"
    by (simp add: take_driver_def worn_def)
  have c: "create_driver chrome_dying (quit 0 (worn 15\<lparr>driver_pool := []\<rparr>)) =
      (Inl SessionNotCreatedException,
       \<lparr>driver_pool = [], drivers = [], driver_expiry = [],
         driver_usage_count = [(0, 15)], launched = 5, quit_calls = [0]\<rparr>)"
    by (simp add: create_driver_def webdriver_Chrome_def quit_def worn_def chrome_dying_def)
  have gd: "get_driver chrome_dying (worn 15) =
       (Inl SessionNotCreatedException,
        \<lparr>driver_pool = [], drivers = [], driver_expiry = [],
         driver_usage_count = [(0, 15)], launched = 5, quit_calls = [0]\<rparr>)"
    by (simp add: get_driver_def t u c MAX_USAGE_PER_DRIVER_def)
  have cap: "get_captcha chrome_dying 120 (CaptchaSrc (Some data_src)) True True sid0 0 (worn 15) =
       Some (Inl SessionNotCreatedException,
        \<lparr>driver_pool = [], drivers = [], driver_expiry = [],
         driver_usage_count = [(0, 15)], launched = 5, quit_calls = [0]\<rparr>)"
    by (simp add: get_captcha_def gd)
  have c2: "create_driver chrome_dying (worn 15\<lparr>driver_pool := []\<rparr>) =
      (Inl SessionNotCreatedException,
       \<lparr>driver_pool = [], drivers = [], driver_expiry = [],
         driver_usage_count = [(0, 15)], launched = 5, quit_calls = []\<rparr>)"
    by (simp add: create_driver_def webdriver_Chrome_def worn_def chrome_dying_def)
  have lazy: "get_driver chrome_dying (worn 15\<lparr>driver_pool := []\<rparr>) =
       (Inl (HTTPException 503),
        \<lparr>driver_pool = [], drivers = [], driver_expiry = [],
         driver_usage_count = [(0, 15)], launched = 5, quit_calls = []\<rparr>)"
    by (simp add: get_driver_def take_driver_def c2)
  from reachable_worn_dying gd cap lazy show ?thesis
    by blast
qed

subsection \<open>Counters of dead drivers\<close>

lemma captcha_page_failed:
  assumes "driver_pool g = d # rest" "length rest < POOL_SIZE"
    "usage_count g (py_id chrome d) < MAX_USAGE_PER_DRIVER" "\<not> memory > 500"
  shows "get_captcha chrome memory PageFailed announced True sid now g =
     Some (Inl (HTTPException 500),
           g\<lparr>driver_usage_count :=
                AList.update (py_id chrome d) (usage_count g (py_id chrome d) + 1)
                  (driver_usage_count g),
             driver_pool := rest @ [d]\<rparr>)"
proof -
  have u: "usage_count (g\<lparr>driver_pool := rest\<rparr>) k = usage_count g k" for k
    by (simp add: usage_count_def)
  have t: "take_driver chrome g = (Inr d, g\<lparr>driver_pool := rest\<rparr>)"
    using assms(1) by (simp add: take_driver_def)
  have gd: "get_driver chrome g = (Inr d, g\<lparr>driver_pool := rest\<rparr>)"
    using assms(3) by (simp add: get_driver_def t u)
  have rel: "release_driver chrome True d (g\<lparr>driver_pool := rest\<rparr>) =
      Some (g\<lparr>driver_usage_count :=
                AList.update (py_id chrome d) (usage_count g (py_id chrome d) + 1)
                  (driver_usage_count g),
             driver_pool := rest @ [d]\<rparr>)"
    using assms(2) by (simp add: release_driver_def u put_def)
  from assms(4) gd rel show ?thesis
    by (simp add: get_captcha_def)
qed

lemma py_id_recycling:
  "py_id chrome_recycling 2 = 102" "py_id chrome_recycling 3 = 103"
  "py_id chrome_recycling 4 = 104" "py_id chrome_recycling 5 = 102"
  by (simp_all add: py_id_def chrome_recycling_def)

lemma startup_recycling: "startup chrome_recycling = Some started"
  by (simp add: startup_def POOL_SIZE_def initial_def eval_nat_numeral create_driver_def
      webdriver_Chrome_def put_def chrome_recycling_def started_def)

lemma sweep_no_sessions: "driver_expiry g = [] \<Longrightarrow> drivers g = [] \<Longrightarrow> sweep th t g = g"
  by (simp add: sweep_def)

lemma monitor_started:
  "monitor_memory_pass (\<lambda>d. True) 450 450 0 started = spun 0 0 0 [2, 3, 4]"
proof -
  have "sweep 180 0 started = started"
    by (rule sweep_no_sessions) (simp_all add: started_def)
  then show ?thesis
    by (simp add: monitor_memory_pass_def)
       (simp add: started_def spun_def eval_nat_numeral quit_def)
qed

lemma spun_first:
  assumes "k < 15"
  shows "get_captcha chrome_recycling 120 PageFailed True True sid now
           (spun k k k [2, 3, 4])
           = Some (Inl (HTTPException 500), spun (Suc k) k k [3, 4, 2])"
proof -
  have u: "usage_count (spun k k k [2, 3, 4]) (py_id chrome_recycling 2) = k"
    by (simp add: usage_count_def spun_def py_id_recycling)
  have p: "driver_pool (spun k k k [2, 3, 4]) = 2 # [3, 4]"
    by (simp add: spun_def)
  have l: "length ([3, 4] :: driver list) < POOL_SIZE"
    by (simp add: POOL_SIZE_def)
  have w: "usage_count (spun k k k [2, 3, 4]) (py_id chrome_recycling 2) < MAX_USAGE_PER_DRIVER"
    using assms by (simp add: u MAX_USAGE_PER_DRIVER_def)
  have m: "\<not> (120::real) > 500"
    by simp
  have e: "(spun k k k [2, 3, 4])\<lparr>driver_usage_count :=
                AList.update (py_id chrome_recycling 2)
                  (usage_count (spun k k k [2, 3, 4]) (py_id chrome_recycling 2) + 1)
                  (driver_usage_count (spun k k k [2, 3, 4])),
             driver_pool := [3, 4] @ [2]\<rparr> = spun (Suc k) k k [3, 4, 2]"
    unfolding u by (simp add: py_id_recycling spun_def)
  from captcha_page_failed [OF p l w m, where announced = True and sid = sid and now = now]
  show ?thesis
    by (simp only: e)
qed

lemma spun_second:
  assumes "k < 15"
  shows "get_captcha chrome_recycling 120 PageFailed True True sid now
           (spun (Suc k) k k [3, 4, 2])
           = Some (Inl (HTTPException 500), spun (Suc k) (Suc k) k [4, 2, 3])"
proof -
  have u: "usage_count (spun (Suc k) k k [3, 4, 2]) (py_id chrome_recycling 3) = k"
    by (simp add: usage_count_def spun_def py_id_recycling)
  have p: "driver_pool (spun (Suc k) k k [3, 4, 2]) = 3 # [4, 2]"
    by (simp add: spun_def)
  have l: "length ([4, 2] :: driver list) < POOL_SIZE"
    by (simp add: POOL_SIZE_def)
  have w: "usage_count (spun (Suc k) k k [3, 4, 2]) (py_id chrome_recycling 3) < MAX_USAGE_PER_DRIVER"
    using assms by (simp add: u MAX_USAGE_PER_DRIVER_def)
  have m: "\<not> (120::real) > 500"
    by simp
  have e: "(spun (Suc k) k k [3, 4, 2])\<lparr>driver_usage_count :=
                AList.update (py_id chrome_recycling 3)
                  (usage_count (spun (Suc k) k k [3, 4, 2]) (py_id chrome_recycling 3) + 1)
                  (driver_usage_count (spun (Suc k) k k [3, 4, 2])),
             driver_pool := [4, 2] @ [3]\<rparr> = spun (Suc k) (Suc k) k [4, 2, 3]"
    unfolding u by (simp add: py_id_recycling spun_def)
  from captcha_page_failed [OF p l w m, where announced = True and sid = sid and now = now]
  show ?thesis
    by (simp only: e)
qed

lemma spun_third:
  assumes "k < 15"
  shows "get_captcha chrome_recycling 120 PageFailed True True sid now
           (spun (Suc k) (Suc k) k [4, 2, 3])
           = Some (Inl (HTTPException 500), spun (Suc k) (Suc k) (Suc k) [2, 3, 4])"
proof -
  have u: "usage_count (spun (Suc k) (Suc k) k [4, 2, 3]) (py_id chrome_recycling 4) = k"
    by (simp add: usage_count_def spun_def py_id_recycling)
  have p: "driver_pool (spun (Suc k) (Suc k) k [4, 2, 3]) = 4 # [2, 3]"
    by (simp add: spun_def)
  have l: "length ([2, 3] :: driver list) < POOL_SIZE"
    by (simp add: POOL_SIZE_def)
  have w: "usage_count (spun (Suc k) (Suc k) k [4, 2, 3]) (py_id chrome_recycling 4) < MAX_USAGE_PER_DRIVER"
    using assms by (simp add: u MAX_USAGE_PER_DRIVER_def)
  have m: "\<not> (120::real) > 500"
    by simp
  have e: "(spun (Suc k) (Suc k) k [4, 2, 3])\<lparr>driver_usage_count :=
                AList.update (py_id chrome_recycling 4)
                  (usage_count (spun (Suc k) (Suc k) k [4, 2, 3]) (py_id chrome_recycling 4) + 1)
                  (driver_usage_count (spun (Suc k) (Suc k) k [4, 2, 3])),
             driver_pool := [2, 3] @ [4]\<rparr> = spun (Suc k) (Suc k) (Suc k) [2, 3, 4]"
    unfolding u by (simp add: py_id_recycling spun_def)
  from captcha_page_failed [OF p l w m, where announced = True and sid = sid and now = now]
  show ?thesis
    by (simp only: e)
qed

lemma reachable_spun: "k \<le> 15 \<Longrightarrow> reachable chrome_recycling (spun k k k [2, 3, 4])"
proof (induction k)
  case 0
  have "reachable chrome_recycling started"
    by (rule reachable.start) (rule startup_recycling)
  from reachable.monitor [OF this, of "\<lambda>d. True" 450 450 0] show ?case
    by (simp add: monitor_started)
next
  case (Suc k)
  then have r: "reachable chrome_recycling (spun k k k [2, 3, 4])" and k: "k < 15"
    by simp_all
  note r1 = reachable.captcha [OF r spun_first [OF k, of "[]" 0]]
  note r2 = reachable.captcha [OF r1 spun_second [OF k, of "[]" 0]]
  from reachable.captcha [OF r2 spun_third [OF k, of "[]" 0]] show ?case .
qed

lemma monitor_spun:
  "monitor_memory_pass (\<lambda>d. True) 450 450 0 (spun 15 15 15 [2, 3, 4]) = shrunk"
proof -
  have "sweep 180 0 (spun 15 15 15 [2, 3, 4]) = spun 15 15 15 [2, 3, 4]"
    by (rule sweep_no_sessions) (simp_all add: spun_def)
  then show ?thesis
    by (simp add: monitor_memory_pass_def)
       (simp add: spun_def shrunk_def eval_nat_numeral quit_def)
qed

lemma get_driver_shrunk: "get_driver chrome_recycling shrunk = (Inr 5, substituted)"
proof -
  have u: "usage_count (shrunk\<lparr>driver_pool := []\<rparr>) (py_id chrome_recycling 4) = 15"
    by (simp add: usage_count_def shrunk_def py_id_recycling)
  have t: "take_driver chrome_recycling shrunk = (Inr 4, shrunk\<lparr>driver_pool := []\<rparr>)"
    by (simp add: take_driver_def shrunk_def)
  have c: "create_driver chrome_recycling (quit 4 (shrunk\<lparr>driver_pool := []\<rparr>)) =
      (Inr 5, \<lparr>driver_pool = [], drivers = [], driver_expiry = [],
               driver_usage_count = [(102, 15), (103, 15), (104, 15)],
               launched = 6, quit_calls = [0, 1, 2, 3, 4]\<rparr>)"
    by (simp add: create_driver_def webdriver_Chrome_def quit_def shrunk_def
        chrome_recycling_def)
  show ?thesis
    by (simp add: get_driver_def t u c MAX_USAGE_PER_DRIVER_def)
       (simp add: py_id_recycling substituted_def)
qed

text \<open>
  Claim C2. get_driver is never to return a driver whose usage counter has reached
  the ceiling of 15: the substitute for a worn driver is to have a counter below the
  ceiling. It does return one. The table is keyed by \<open>id(driver)\<close>, an entry is never
  deleted when its driver dies, and line 173 writes the 0 under the key of the
  discarded driver, not under that of the substitute. The service starts with five
  drivers; a pass of the memory monitor under memory pressure quits the drivers 0 and
  1; forty-five captcha requests whose page fails to load release each of the drivers
  2, 3 and 4 fifteen times; a second pass of the monitor quits the drivers 2 and 3,
  whose counters of 15 stay in the table (the state \<open>shrunk\<close>). The next call of
  get_driver takes driver 4, whose counter is 15, quits it and creates driver 5, which
  the interpreter places at the address 102 of the dead driver 2: the driver returned
  has the counter 15.
\<close>

theorem substitute_inherits_counter_of_dead_driver:
  "reachable chrome_recycling (spun 15 15 15 [2, 3, 4])
   \<and> monitor_memory_pass (\<lambda>d. True) 450 450 0 (spun 15 15 15 [2, 3, 4]) = shrunk
   \<and> reachable chrome_recycling shrunk
   \<and> 2 \<in> set (quit_calls shrunk) \<and> 2 \<notin> set (driver_pool shrunk)
   \<and> 2 \<notin> snd ` set (drivers shrunk)
   \<and> usage_count shrunk (py_id chrome_recycling 2) = 15
   \<and> get_driver chrome_recycling shrunk = (Inr 5, substituted)
   \<and> py_id chrome_recycling 5 = py_id chrome_recycling 2
   \<and> usage_count substituted (py_id chrome_recycling 5) = 15
   \<and> usage_count substituted (py_id chrome_recycling 4) = 0
   \<and> MAX_USAGE_PER_DRIVER = 15"
proof -
  have r: "reachable chrome_recycling (spun 15 15 15 [2, 3, 4])"
    by (rule reachable_spun) simp
  from reachable.monitor [OF r, of "\<lambda>d. True" 450 450 0]
  have r': "reachable chrome_recycling shrunk"
    by (simp add: monitor_spun)
  have s: "2 \<in> set (quit_calls shrunk)" "2 \<notin> set (driver_pool shrunk)"
    "2 \<notin> snd ` set (drivers shrunk)"
    "usage_count shrunk (py_id chrome_recycling 2) = 15"
    by (simp_all add: shrunk_def usage_count_def py_id_recycling)
  have i: "py_id chrome_recycling 5 = py_id chrome_recycling 2"
    by (simp add: py_id_recycling)
  have u: "usage_count substituted (py_id chrome_recycling 5) = 15"
    "usage_count substituted (py_id chrome_recycling 4) = 0"
    by (simp_all add: substituted_def usage_count_def py_id_recycling)
  have m: "MAX_USAGE_PER_DRIVER = 15"
    by (simp add: MAX_USAGE_PER_DRIVER_def)
  from r monitor_spun r' s get_driver_shrunk i u m show ?thesis
    by simp
qed

subsection \<open>Registry and pool\<close>

lemma captcha_unannounced:
  "get_captcha chrome_ok 120 (CaptchaSrc (Some data_src)) False True sid0 0 started =
     Some (Inl (HTTPException 500), bound_in_pool)"
proof -
  have gd: "get_driver chrome_ok started = (Inr 0, started\<lparr>driver_pool := [1, 2, 3, 4]\<rparr>)"
    by (simp add: get_driver_def take_driver_def started_def usage_count_def
        MAX_USAGE_PER_DRIVER_def)
  have a: "py_id chrome_ok 0 = 0"
    by (simp add: py_id_def chrome_ok_def)
  have rel: "release_driver chrome_ok True 0
      (started\<lparr>driver_pool := [1, 2, 3, 4], drivers := AList.update sid0 0 (drivers started),
         driver_expiry := AList.update sid0 0 (driver_expiry started)\<rparr>) = Some bound_in_pool"
    by (simp add: release_driver_def put_def POOL_SIZE_def usage_count_def a)
       (simp add: started_def bound_in_pool_def)
  have "get_captcha chrome_ok 120 (CaptchaSrc (Some data_src)) False True sid0 0 started =
      (case release_driver chrome_ok True 0
              ((started\<lparr>driver_pool := [1, 2, 3, 4]\<rparr>)
                 \<lparr>drivers := AList.update sid0 0
                     (drivers (started\<lparr>driver_pool := [1, 2, 3, 4]\<rparr>)),
                  driver_expiry := AList.update sid0 0
                     (driver_expiry (started\<lparr>driver_pool := [1, 2, 3, 4]\<rparr>))\<rparr>) of
         None \<Rightarrow> None
       | Some g2 \<Rightarrow> Some (Inl (HTTPException 500), g2))"
    by (simp add: get_captcha_def gd is_data_image_src)
  also have "\<dots> = Some (Inl (HTTPException 500), bound_in_pool)"
    using rel by simp
  finally show ?thesis .
qed

text \<open>
  Claim C5. No driver bound to a session id in \<open>drivers\<close> is to be in the pool at any
  time. One is: after start-up with five drivers, a captcha request reads the image
  and binds driver 0 to the session \<open>sid0\<close> (lines 287 and 288); one of the statements
  that follow inside the same \<open>try\<close> (the start of the timer thread, the two prints)
  raises, and the handler of lines 312 to 315 releases the driver as for every other
  failure: the request answers 500, and driver 0 is the last driver of the pool and
  still bound to \<open>sid0\<close>. When the timer of \<open>sid0\<close> fires after that, \<open>quit()\<close> is called on
  driver 0, which stays in the pool.
\<close>

theorem registered_driver_released_to_pool:
  "reachable chrome_ok started
   \<and> set (driver_pool started) \<inter> snd ` set (drivers started) = {}
   \<and> get_captcha chrome_ok 120 (CaptchaSrc (Some data_src)) False True sid0 0 started =
       Some (Inl (HTTPException 500), bound_in_pool)
   \<and> reachable chrome_ok bound_in_pool
   \<and> driver_pool bound_in_pool = [1, 2, 3, 4, 0]
   \<and> map_of (drivers bound_in_pool) sid0 = Some 0
   \<and> set (driver_pool bound_in_pool) \<inter> snd ` set (drivers bound_in_pool) = {0}
   \<and> quit_calls (auto_release_driver sid0 bound_in_pool) = [0]
   \<and> driver_pool (auto_release_driver sid0 bound_in_pool) = [1, 2, 3, 4, 0]"
proof -
  from reachable.captcha [OF reachable_started captcha_unannounced]
  have r: "reachable chrome_ok bound_in_pool" .
  have a: "set (driver_pool started) \<inter> snd ` set (drivers started) = {}"
    by (simp add: started_def)
  have b: "driver_pool bound_in_pool = [1, 2, 3, 4, 0]"
    "map_of (drivers bound_in_pool) sid0 = Some 0"
    "set (driver_pool bound_in_pool) \<inter> snd ` set (drivers bound_in_pool) = {0}"
    by (simp_all add: bound_in_pool_def)
  have t: "quit_calls (auto_release_driver sid0 bound_in_pool) = [0]"
    "driver_pool (auto_release_driver sid0 bound_in_pool) = [1, 2, 3, 4, 0]"
    by (simp_all add: auto_release_driver_def bound_in_pool_def quit_def)
  from reachable_started a captcha_unannounced r b t show ?thesis
    by simp
qed

lemma get_captcha_bound:
  assumes "get_captcha chrome memory page announced cleared session_id now g
             = Some (Inr (sid, src), g')"
    "pool_inv g"
  shows "\<exists>d. map_of (drivers g') sid = Some d \<and> d \<notin> set (driver_pool g')"
    "map_of (driver_expiry g') sid = Some now" "sid = session_id"
proof -
  from assms(1)
  have "(\<exists>d. map_of (drivers g') sid = Some d \<and> d \<notin> set (driver_pool g'))
      \<and> map_of (driver_expiry g') sid = Some now \<and> sid = session_id"
  proof (cases rule: get_captcha_cases)
    case (bound d g1 src')
    note gi = get_driver_Inr [OF bound(2) assms(2)]
    from bound(4) have "sid = session_id" by simp
    with bound(5) gi(2) show ?thesis
      by (simp add: update_conv')
  qed simp_all
  then show "\<exists>d. map_of (drivers g') sid = Some d \<and> d \<notin> set (driver_pool g')"
    "map_of (driver_expiry g') sid = Some now" "sid = session_id"
    by blast+
qed

lemma get_captcha_failed:
  assumes "get_captcha chrome memory page True cleared session_id now g = Some (Inl e, g')"
    "pool_inv g"
  shows "drivers g' = drivers g"
  using assms(1)
proof (cases rule: get_captcha_cases)
  case busy
  then show ?thesis by simp
next
  case (no_driver e)
  from get_driver_Inl(2) [OF no_driver(2) assms(2)] show ?thesis .
next
  case (bound d g1 src)
  then show ?thesis by simp
next
  case (bound_released d g1)
  then show ?thesis by simp
next
  case (released d g1)
  note gi = get_driver_Inr [OF released(2) assms(2)]
  from release_driver_inv [OF gi(1) gi(7) gi(2) gi(4), of chrome cleared] released(4) gi(5)
  show ?thesis by auto
qed

text \<open>
  What holds of the registry and the pool. As long as no captcha request fails in
  the statements that follow its registration, no driver bound to a session id is in
  the pool. In every reachable state, the driver that a successful captcha request binds
  to the new session id is not in the pool afterwards; a captcha request that fails
  before the registration adds no session; and get_captcha always returns: its \<open>put\<close>
  never finds the pool full.
\<close>

theorem registry_disjoint_while_announced:
  "(reachable_announced chrome g \<longrightarrow> set (driver_pool g) \<inter> snd ` set (drivers g) = {})
   \<and> (reachable chrome g
        \<and> get_captcha chrome memory page announced cleared session_id now g
            = Some (Inr (sid, src), g')
      \<longrightarrow> (\<exists>d. map_of (drivers g') sid = Some d \<and> d \<notin> set (driver_pool g')))
   \<and> (reachable chrome g
        \<and> get_captcha chrome memory page True cleared session_id now g = Some (Inl e, g')
      \<longrightarrow> drivers g' = drivers g)
   \<and> (reachable chrome g
      \<longrightarrow> (\<exists>r g'. get_captcha chrome memory page announced cleared session_id now g
                    = Some (r, g')))"
proof -
  have a: "reachable_announced chrome g \<longrightarrow> set (driver_pool g) \<inter> snd ` set (drivers g) = {}"
    using reachable_announced_separated [of chrome g] by (simp add: separated_def)
  have b: "reachable chrome g
        \<and> get_captcha chrome memory page announced cleared session_id now g
            = Some (Inr (sid, src), g')
      \<longrightarrow> (\<exists>d. map_of (drivers g') sid = Some d \<and> d \<notin> set (driver_pool g'))"
    using get_captcha_bound(1) reachable_inv by blast
  have c: "reachable chrome g
        \<and> get_captcha chrome memory page True cleared session_id now g = Some (Inl e, g')
      \<longrightarrow> drivers g' = drivers g"
    using get_captcha_failed reachable_inv by blast
  have d: "reachable chrome g
      \<longrightarrow> (\<exists>r g'. get_captcha chrome memory page announced cleared session_id now g
                    = Some (r, g'))"
    using get_captcha_returns reachable_inv by blast
  from a b c d show ?thesis by blast
qed

text \<open>
  After start-up with browsers that always start, the captcha issued for \<open>sid0\<close> binds
  driver 0, which has left the pool; and a captcha request whose page fails to load in
  the state \<open>started\<close> returns with no session registered.
\<close>

theorem registry_disjoint_while_announced_witness:
  "set (driver_pool (session_at 0)) \<inter> snd ` set (drivers (session_at 0)) = {}
   \<and> map_of (drivers (session_at 0)) sid0 = Some 0
   \<and> 0 \<notin> set (driver_pool (session_at 0))
   \<and> (\<exists>g'. get_captcha chrome_ok 120 PageFailed True True sid0 0 started
              = Some (Inl (HTTPException 500), g')
          \<and> drivers g' = [])"
proof -
  from registry_disjoint_while_announced [of chrome_ok "session_at 0", THEN conjunct1]
    reachable_announced_session_at [of 0]
  have a: "set (driver_pool (session_at 0)) \<inter> snd ` set (drivers (session_at 0)) = {}"
    by blast
  from registry_disjoint_while_announced
    [of chrome_ok started 120 "CaptchaSrc (Some data_src)" True True sid0 0 sid0 data_src
      "session_at 0", THEN conjunct2, THEN conjunct1]
    reachable_started captcha_started [of True 0]
  obtain d where "map_of (drivers (session_at 0)) sid0 = Some d"
    "d \<notin> set (driver_pool (session_at 0))"
    by blast
  then have b: "map_of (drivers (session_at 0)) sid0 = Some 0"
    "0 \<notin> set (driver_pool (session_at 0))"
    by (simp_all add: session_at_def)
  from registry_disjoint_while_announced
    [of chrome_ok started 120 PageFailed True True sid0 0, THEN conjunct2, THEN conjunct2,
      THEN conjunct2] reachable_started
  obtain r g' where c: "get_captcha chrome_ok 120 PageFailed True True sid0 0 started = Some (r, g')"
    by blast
  have "get_driver chrome_ok started = (Inr 0, started\<lparr>driver_pool := [1, 2, 3, 4]\<rparr>)"
    by (simp add: get_driver_def take_driver_def started_def usage_count_def
        MAX_USAGE_PER_DRIVER_def)
  with c have r: "r = Inl (HTTPException 500)"
    by (auto simp: get_captcha_def split: option.splits)
  from registry_disjoint_while_announced
    [of chrome_ok started 120 PageFailed True True sid0 0 _ _ g' "HTTPException 500",
      THEN conjunct2, THEN conjunct2, THEN conjunct1]
    reachable_started c r
  have "drivers g' = drivers started"
    by blast
  then have "drivers g' = []"
    by (simp add: started_def)
  with a b c r show ?thesis
    by blast
qed

subsection \<open>The timer of a session\<close>

text \<open>
  Claim C1. A session that is used again and again, every use refreshing its time
  stamp, is to be destroyed by no background thread. The timer started at registration
  does destroy it: the session \<open>sid0\<close> is registered at time 0 and used successfully at
  the times 100 and 200; at time 240 the idle sweep and the memory-pressure sweep keep
  it (its age is 40 s), and the timer of its registration, which only asks whether the
  session id is still in \<open>drivers\<close>, quits its driver and removes the session.
\<close>

theorem timer_destroys_used_session:
  "\<exists>resp1 resp2.
     startup chrome_ok = Some started
     \<and> get_captcha chrome_ok 120 (CaptchaSrc (Some data_src)) True True sid0 0 started
          = Some (Inr (sid0, data_src), session_at 0)
     \<and> get_semester_weeks chrome_ok 120 weeks_request
          (SchedulePage three_semesters three_weeks) alert_in_second 100 (session_at 0)
          = (Inr resp1, session_at 100)
     \<and> get_semester_weeks chrome_ok 120 weeks_request
          (SchedulePage three_semesters three_weeks) alert_in_second 200 (session_at 100)
          = (Inr resp2, session_at 200)
     \<and> map_of (driver_expiry (session_at 200)) sid0 = Some 200
     \<and> cleanup_drivers_pass 240 (session_at 200) = session_at 200
     \<and> monitor_memory_pass (\<lambda>d. True) 450 390 240 (session_at 200) = session_at 200
     \<and> map_of (drivers (auto_release_driver sid0 (session_at 200))) sid0 = None
     \<and> map_of (driver_expiry (auto_release_driver sid0 (session_at 200))) sid0 = None
     \<and> quit_calls (auto_release_driver sid0 (session_at 200)) = [0]"
proof -
  from weeks_touch [of 100 0] obtain resp1 where
    u1: "get_semester_weeks chrome_ok 120 weeks_request
          (SchedulePage three_semesters three_weeks) alert_in_second 100 (session_at 0)
          = (Inr resp1, session_at 100)"
    by blast
  from weeks_touch [of 200 100] obtain resp2 where
    u2: "get_semester_weeks chrome_ok 120 weeks_request
          (SchedulePage three_semesters three_weeks) alert_in_second 200 (session_at 100)
          = (Inr resp2, session_at 200)"
    by blast
  have e: "map_of (driver_expiry (session_at 200)) sid0 = Some 200"
    by (simp add: session_at_def)
  have sw: "sweep th 240 (session_at 200) = session_at 200" if "40 \<le> th" for th
    using that by (simp add: sweep_def session_at_def)
  have c: "cleanup_drivers_pass 240 (session_at 200) = session_at 200"
    by (simp add: cleanup_drivers_pass_def sw)
  have m: "monitor_memory_pass (\<lambda>d. True) 450 390 240 (session_at 200) = session_at 200"
    by (simp add: monitor_memory_pass_def sw)
  have t: "map_of (drivers (auto_release_driver sid0 (session_at 200))) sid0 = None"
    "map_of (driver_expiry (auto_release_driver sid0 (session_at 200))) sid0 = None"
    "quit_calls (auto_release_driver sid0 (session_at 200)) = [0]"
    by (simp_all add: auto_release_driver_def session_at_def quit_def)
  from startup_chrome_ok captcha_started [of True 0] u1 u2 e c m t show ?thesis
    by blast
qed

subsection \<open>Failures of get_driver\<close>

text \<open>
  The part of claim C3 that the code keeps: get_driver fails only when a creation of
  a driver fails, with the error 503 or with the exception of that creation; and with
  a head of the pool below the ceiling it returns this head without creating anything.
\<close>

theorem get_driver_fails_only_on_creation:
  "(get_driver chrome g = (Inl e, g') \<longrightarrow>
      (\<exists>g0 e'. create_driver chrome g0 = (Inl e', g') \<and> (e = HTTPException 503 \<or> e = e')))
   \<and> (driver_pool g = d # rest \<and> usage_count g (py_id chrome d) < MAX_USAGE_PER_DRIVER \<longrightarrow>
      get_driver chrome g = (Inr d, g\<lparr>driver_pool := rest\<rparr>))"
proof -
  have a: "\<exists>g0 e'. create_driver chrome g0 = (Inl e', g') \<and> (e = HTTPException 503 \<or> e = e')"
    if r: "get_driver chrome g = (Inl e, g')"
  proof -
    obtain r0 g0 where t: "take_driver chrome g = (r0, g0)"
      by (cases "take_driver chrome g")
    show ?thesis
    proof (cases r0)
      case (Inl e0)
      with r t have "g' = g0" "e = e0"
        by (simp_all add: get_driver_def)
      with take_driver_Inl(2,3) [OF t [unfolded Inl]] show ?thesis
        by blast
    next
      case (Inr d0)
      with r t have "create_driver chrome (quit d0 g0) = (Inl e, g')"
        by (auto simp: get_driver_def split: prod.splits sum.splits if_splits)
      then show ?thesis
        by blast
    qed
  qed
  have b: "get_driver chrome g = (Inr d, g\<lparr>driver_pool := rest\<rparr>)"
    if h: "driver_pool g = d # rest \<and> usage_count g (py_id chrome d) < MAX_USAGE_PER_DRIVER"
  proof -
    from h have t: "take_driver chrome g = (Inr d, g\<lparr>driver_pool := rest\<rparr>)"
      by (simp add: take_driver_def)
    have "usage_count (g\<lparr>driver_pool := rest\<rparr>) (py_id chrome d)
        = usage_count g (py_id chrome d)"
      by (simp add: usage_count_def)
    with h t show ?thesis
      by (simp add: get_driver_def)
  qed
  from a b show ?thesis by blast
qed

text \<open>
  With the installation \<open>chrome_dying\<close>: the failure of get_driver in the state \<open>worn 15\<close>
  is the failure of a creation, and in the state \<open>worn 14\<close> get_driver returns the head.
\<close>

theorem get_driver_fails_only_on_creation_witness:
  "(\<exists>g0 e' g'. get_driver chrome_dying (worn 15) = (Inl e', g')
       \<and> create_driver chrome_dying g0 = (Inl e', g'))
   \<and> get_driver chrome_dying (worn 14) = (Inr 0, worn 14\<lparr>driver_pool := []\<rparr>)"
proof -
  have u: "usage_count (worn 15\<lparr>driver_pool := []\<rparr>) (py_id chrome_dying 0) = 15"
    by (simp add: usage_count_def worn_def py_id_dying)
  have t: "take_driver chrome_dying (worn 15) = (Inr 0, worn 15\<lparr>driver_pool := []\<rparr>)"
    by (simp add: take_driver_def worn_def)
  obtain r g' where c: "create_driver chrome_dying (quit 0 (worn 15\<lparr>driver_pool := []\<rparr>)) = (r, g')"
    by (cases "create_driver chrome_dying (quit 0 (worn 15\<lparr>driver_pool := []\<rparr>))")
  then have "r = Inl SessionNotCreatedException"
    by (simp add: create_driver_def webdriver_Chrome_def quit_def worn_def chrome_dying_def)
  with c have gd: "get_driver chrome_dying (worn 15) = (Inl SessionNotCreatedException, g')"
    by (simp add: get_driver_def t u MAX_USAGE_PER_DRIVER_def)
  from get_driver_fails_only_on_creation
    [of chrome_dying "worn 15" SessionNotCreatedException g', THEN conjunct1] gd
  obtain g0 e' where "create_driver chrome_dying g0 = (Inl e', g')"
    "SessionNotCreatedException = HTTPException 503 \<or> SessionNotCreatedException = e'"
    by blast
  with gd have a: "\<exists>g0 e' g'. get_driver chrome_dying (worn 15) = (Inl e', g')
       \<and> create_driver chrome_dying g0 = (Inl e', g')"
    by auto
  have "driver_pool (worn 14) = 0 # []
      \<and> usage_count (worn 14) (py_id chrome_dying 0) < MAX_USAGE_PER_DRIVER"
    by (simp add: worn_def usage_count_def py_id_dying MAX_USAGE_PER_DRIVER_def)
  with get_driver_fails_only_on_creation
    [of chrome_dying "worn 14" _ _ 0 "[]", THEN conjunct2]
  have b: "get_driver chrome_dying (worn 14) = (Inr 0, worn 14\<lparr>driver_pool := []\<rparr>)"
    by blast
  from a b show ?thesis by blast
qed


end
